theory Spec2Isabelle
  imports Main "HOL-Library.Multiset" "HOL-Library.List_Lexorder" "HOL-Library.Product_Lexorder"
begin

section \<open>Python values used by yahoojp_byline\<close>

text \<open>
  A Python \<^verbatim>\<open>str\<close> is a sequence of Unicode code points; it is modelled as a list of
  naturals (one per code point), so that the Japanese literals of the source are single
  characters, as they are for Python's \<^verbatim>\<open>re\<close> and \<^verbatim>\<open>len\<close>.
  \<open>ustr\<close> reads an ASCII literal.
\<close>

type_synonym ustring = "nat list"

definition ustr :: "string \<Rightarrow> ustring" where
  "ustr s = map of_char s"

text \<open>The exceptions the modelled code can raise.\<close>

datatype pyerror = TypeError | ValueError | KeyError | IndexError

text \<open>Sequencing of computations that may raise: the first exception propagates.\<close>

definition ebind :: "pyerror + 'a \<Rightarrow> ('a \<Rightarrow> pyerror + 'b) \<Rightarrow> pyerror + 'b" where
  "ebind m f = (case m of Inl e \<Rightarrow> Inl e | Inr x \<Rightarrow> f x)"

text \<open>
  Truthiness of an \<^verbatim>\<open>Optional[str]\<close>: \<^verbatim>\<open>None\<close> and the empty string are falsy.
\<close>

fun truthy :: "ustring option \<Rightarrow> bool" where
  "truthy None = False"
| "truthy (Some s) = (s \<noteq> [])"

section \<open>Data model (parse.py, lines 8-11)\<close>

text \<open>
  Modelled from the spec: \<^verbatim>\<open>TZ_TOKYO = gettz('Asia/Tokyo')\<close> reads the time zone table of
  the dateutil library, which is not part of the source; the spec fixes the zone as UTC+9
  with no daylight saving, so the offset of every timestamp in this zone is 32400 seconds.
\<close>

datatype tzinfo = TZ_TOKYO

fun utcoffset_seconds :: "tzinfo \<Rightarrow> int" where
  "utcoffset_seconds TZ_TOKYO = 32400"

text \<open>
  A \<^verbatim>\<open>datetime\<close> as \<^verbatim>\<open>parse_pubdate\<close> builds it: year, month, day, hour, minute and the
  zone (seconds and microseconds are always zero there).
\<close>

record datetime =
  year :: int
  month :: int
  day :: int
  hour :: int
  minute :: int
  tz :: tzinfo

record Entry =
  url :: "ustring option"
  title :: "ustring option"
  summary :: "ustring option"
  pubdate :: "datetime option"
  thumbnail :: "ustring option"

text \<open>
  \<^verbatim>\<open>FeedData = namedtuple('FeedData', ('title', 'url', 'author', 'description', 'entries'))\<close>.
  The fields \<open>title\<close> and \<open>url\<close> are written \<open>feed_title\<close> and \<open>feed_url\<close> here, the
  names being taken by \<open>Entry\<close>.
\<close>

record FeedData =
  feed_title :: "ustring option"
  feed_url :: "ustring option"
  author :: "ustring option"
  description :: "ustring option"
  entries :: "Entry list"

section \<open>Validation (command/main.py, lines 23-37)\<close>

text \<open>
  The four messages of \<^verbatim>\<open>validate_feeddata\<close>, named by what they report (the source
  logs a Japanese sentence for each).
\<close>

datatype log_message = NoAuthor | NoTitle | NoUrl | NoEntries

datatype log_record = LOG_error log_message | LOG_warning log_message

text \<open>The result is the returned truth value together with the records logged.\<close>

definition validate_feeddata :: "FeedData \<Rightarrow> bool \<times> log_record list" where
  "validate_feeddata data =
     (if \<not> truthy (author data) then (False, [LOG_error NoAuthor])
      else if \<not> truthy (feed_title data) then (False, [LOG_error NoTitle])
      else if \<not> truthy (feed_url data) then (False, [LOG_error NoUrl])
      else if entries data = [] then (True, [LOG_warning NoEntries])
      else (True, []))"

section \<open>Feed serializer (feed.py, lines 7-29)\<close>

text \<open>
  What \<^verbatim>\<open>make_rss\<close> hands to the feedgenerator library: the keyword arguments of
  \<^verbatim>\<open>Rss201rev2Feed(...)\<close> and, for each entry, those of \<^verbatim>\<open>feed.add_item(...)\<close>.
\<close>

record rss_item =
  item_title :: "ustring option"
  item_link :: "ustring option"
  item_description :: "ustring option"
  item_author_name :: ustring
  item_pubdate :: "datetime option"

record rss_feed =
  channel_title :: ustring
  channel_link :: "ustring option"
  channel_description :: "ustring option"
  channel_language :: ustring
  channel_author_name :: ustring
  items :: "rss_item list"

text \<open>The literal that follows \<^verbatim>\<open>{author}\<close> in the channel title (feed.py, line 15).\<close>

definition channel_title_suffix :: ustring where
  "channel_title_suffix =
     ustr '' - Yahoo!'' @ [0x30CB, 0x30E5, 0x30FC, 0x30B9, 0x500B, 0x4EBA] @ ustr '' (''
       @ [0x975E, 0x516C, 0x5F0F] @ ustr ''RSS)''"

definition Rss201rev2Feed :: "ustring \<Rightarrow> FeedData \<Rightarrow> rss_feed" where
  "Rss201rev2Feed a feeddata =
     \<lparr>channel_title = a @ channel_title_suffix,
      channel_link = feed_url feeddata,
      channel_description = description feeddata,
      channel_language = ustr ''ja'',
      channel_author_name = a,
      items = []\<rparr>"

text \<open>The keyword arguments of one \<^verbatim>\<open>feed.add_item(...)\<close> call (feed.py, lines 22-27).\<close>

definition item_of :: "ustring \<Rightarrow> Entry \<Rightarrow> rss_item" where
  "item_of a entry =
     \<lparr>item_title = title entry,
      item_link = url entry,
      item_description = summary entry,
      item_author_name = a,
      item_pubdate = pubdate entry\<rparr>"

definition add_item :: "ustring \<Rightarrow> rss_feed \<Rightarrow> Entry \<Rightarrow> rss_feed" where
  "add_item a feed entry = feed\<lparr>items := items feed @ [item_of a entry]\<rparr>"

text \<open>
  \<^verbatim>\<open>make_rss\<close>. The feedgenerator library is not part of the source: what it does with
  the arguments it is given (the constructor, \<^verbatim>\<open>add_item\<close> and \<^verbatim>\<open>writeString('utf-8')\<close>
  together) is the parameter \<open>writeString\<close>, applied to the feed that the source has
  built and to \<open>w\<close>, whatever else the library may read when it is called (the clock,
  for one). It may raise.
\<close>

definition make_rss ::
  "(rss_feed \<Rightarrow> 'w \<Rightarrow> pyerror + ustring) \<Rightarrow> 'w \<Rightarrow> FeedData \<Rightarrow> pyerror + ustring" where
  "make_rss writeString w feeddata =
     (case author feeddata of
        None \<Rightarrow> Inl ValueError
      | Some a \<Rightarrow>
          if a = [] then Inl ValueError
          else writeString (foldl (add_item a) (Rss201rev2Feed a feeddata) (entries feeddata)) w)"




section \<open>Merging several feeds (command/main.py, lines 63-79)\<close>

text \<open>
  Comparison of two \<^verbatim>\<open>datetime\<close> values of the same zone is the comparison of their
  fields, most significant first; comparison of two \<^verbatim>\<open>str\<close> is lexicographic on code
  points. Both are the lexicographic order \<open><\<close> on lists.
\<close>

definition datetime_fields :: "datetime \<Rightarrow> int list" where
  "datetime_fields d = [year d, month d, day d, hour d, minute d]"

text \<open>The sort key \<^verbatim>\<open>[entry.pubdate, entry.title]\<close> (line 76).\<close>

type_synonym sortkey = "datetime option \<times> ustring option"

definition sort_key_of :: "Entry \<Rightarrow> sortkey" where
  "sort_key_of entry = (pubdate entry, title entry)"

text \<open>
  \<^verbatim>\<open>a < b\<close> on two such lists, as Python evaluates it: the first position where the items
  are not equal decides, by \<open><\<close> on the two items, and that raises \<^verbatim>\<open>TypeError\<close> when one
  of them is \<^verbatim>\<open>None\<close> and the other is not (\<^verbatim>\<open>None == None\<close> holds, so two absent items
  are passed over); lists equal throughout are not less.
\<close>

definition title_lt :: "ustring option \<Rightarrow> ustring option \<Rightarrow> pyerror + bool" where
  "title_lt t1 t2 =
     (case (t1, t2) of
        (None, None) \<Rightarrow> Inr False
      | (Some a, Some b) \<Rightarrow> Inr (a \<noteq> b \<and> a < b)
      | _ \<Rightarrow> Inl TypeError)"

definition key_lt :: "sortkey \<Rightarrow> sortkey \<Rightarrow> pyerror + bool" where
  "key_lt k1 k2 =
     (case (fst k1, fst k2) of
        (None, None) \<Rightarrow> title_lt (snd k1) (snd k2)
      | (Some d1, Some d2) \<Rightarrow>
          if d1 = d2 then title_lt (snd k1) (snd k2)
          else Inr (datetime_fields d1 < datetime_fields d2)
      | _ \<Rightarrow> Inl TypeError)"

text \<open>
  \<^verbatim>\<open>sorted(..., key=..., reverse=True)\<close>. Python's sort is stable and compares keys by
  \<open><\<close> only; with \<^verbatim>\<open>reverse=True\<close> it reverses the list, sorts it in ascending order and
  reverses the result, so that equal keys keep their input order. The ascending sort is
  modelled as the stable insertion of each element, left to right, behind the elements
  that are not greater; an exception raised by a comparison ends it. CPython's sort asks
  other comparisons than this one, of the same form \<open>key x < key y\<close>: when none of them
  raises, the result is the one stable ordering, whatever the sort; and a list that
  holds keys with and without a pubdate makes every sort compare two such keys, as it
  makes this one (lemma \<open>sorted_reverse_mixed\<close>).
\<close>

fun insert_sorted :: "('a \<Rightarrow> 'a \<Rightarrow> pyerror + bool) \<Rightarrow> 'a \<Rightarrow> 'a list \<Rightarrow> pyerror + 'a list" where
  "insert_sorted lt x [] = Inr [x]"
| "insert_sorted lt x (y # ys) =
     (case lt x y of
        Inl e \<Rightarrow> Inl e
      | Inr True \<Rightarrow> Inr (x # y # ys)
      | Inr False \<Rightarrow> (case insert_sorted lt x ys of Inl e \<Rightarrow> Inl e | Inr zs \<Rightarrow> Inr (y # zs)))"

fun sort_into :: "('a \<Rightarrow> 'a \<Rightarrow> pyerror + bool) \<Rightarrow> 'a list \<Rightarrow> 'a list \<Rightarrow> pyerror + 'a list" where
  "sort_into lt acc [] = Inr acc"
| "sort_into lt acc (x # xs) =
     (case insert_sorted lt x acc of Inl e \<Rightarrow> Inl e | Inr acc' \<Rightarrow> sort_into lt acc' xs)"

definition sorted_reverse :: "Entry list \<Rightarrow> pyerror + Entry list" where
  "sorted_reverse es =
     (case sort_into (\<lambda>a b. key_lt (sort_key_of a) (sort_key_of b)) [] (rev es) of
        Inl e \<Rightarrow> Inl e
      | Inr r \<Rightarrow> Inr (rev r))"

text \<open>\<^verbatim>\<open>sep.join(items)\<close>: \<^verbatim>\<open>TypeError\<close> when an item is not a string.\<close>

fun intercalate :: "ustring \<Rightarrow> ustring list \<Rightarrow> ustring" where
  "intercalate sep [] = []"
| "intercalate sep [x] = x"
| "intercalate sep (x # y # ys) = x @ sep @ intercalate sep (y # ys)"

definition str_join :: "ustring \<Rightarrow> ustring option list \<Rightarrow> pyerror + ustring" where
  "str_join sep xs =
     (case those xs of None \<Rightarrow> Inl TypeError | Some ss \<Rightarrow> Inr (intercalate sep ss))"

text \<open>The literal that follows \<^verbatim>\<open>{authors}\<close> in the merged title (line 70).\<close>

definition merged_title_suffix :: ustring where
  "merged_title_suffix =
     ustr '' - Yahoo!'' @ [0x500B, 0x4EBA, 0x30CB, 0x30E5, 0x30FC, 0x30B9] @ ustr '' (''
       @ [0x975E, 0x516C, 0x5F0F] @ ustr ''RSS)''"

text \<open>
  The FeedData that \<^verbatim>\<open>SingleFileOutputHandler.finish\<close> builds from \<^verbatim>\<open>self.feed_list\<close> when
  the list does not hold exactly one feed (lines 68-78), its arguments evaluated in the
  order written; \<^verbatim>\<open>finish\<close> then renders it with \<^verbatim>\<open>make_rss\<close>.
\<close>

definition finish_feeddata :: "FeedData list \<Rightarrow> pyerror + FeedData" where
  "finish_feeddata feed_list =
     ebind (str_join (ustr '', '') (map author feed_list)) (\<lambda>authors.
       case feed_list of
         [] \<Rightarrow> Inl IndexError
       | first # _ \<Rightarrow>
           ebind (sorted_reverse (concat (map entries feed_list))) (\<lambda>es.
             Inr \<lparr>feed_title = Some (authors @ merged_title_suffix),
                  feed_url = feed_url first,
                  author = Some authors,
                  description = Some [],
                  entries = es\<rparr>))"

text \<open>
  For stating the order of the merged entries: the key of an entry whose pubdate and
  title are present, in a linear order (lexicographic on the pair), and the stable
  insertion as a function that cannot fail.
\<close>

definition present_key :: "Entry \<Rightarrow> int list \<times> ustring" where
  "present_key e = (datetime_fields (the (pubdate e)), the (title e))"

fun ins_behind :: "('a \<Rightarrow> 'k::linorder) \<Rightarrow> 'a \<Rightarrow> 'a list \<Rightarrow> 'a list" where
  "ins_behind k x [] = [x]"
| "ins_behind k x (y # ys) = (if k x < k y then x # y # ys else y # ins_behind k x ys)"

text \<open>An entry with no pubdate.\<close>

definition undated :: "Entry \<Rightarrow> bool" where
  "undated e = (pubdate e = None)"

section \<open>Regular expressions, as parse.py uses them\<close>

text \<open>
  The fragment of Python's \<^verbatim>\<open>re\<close> that the two patterns of parse.py are written in, with
  the semantics of a backtracking matcher: every construct yields its possible matches
  in the order in which the matcher tries them (a greedy construct the longest first, a
  lazy one the shortest first, an alternation left to right), and the first complete
  match is the one returned. Quantifiers other than \<^verbatim>\<open>?\<close> are applied to character
  classes only, as in the source.
\<close>

definition ord :: "char \<Rightarrow> nat" where
  "ord c = of_char c"

datatype cclass =
    Lit nat           \<comment> \<open>one character\<close>
  | Range nat nat     \<comment> \<open>\<^verbatim>\<open>[a-b]\<close>\<close>
  | AnyOf "nat list"  \<comment> \<open>\<^verbatim>\<open>[abc]\<close>\<close>
  | Dot               \<comment> \<open>\<^verbatim>\<open>.\<close>: any character but the newline\<close>

fun in_class :: "cclass \<Rightarrow> nat \<Rightarrow> bool" where
  "in_class (Lit c) x = (x = c)"
| "in_class (Range lo hi) x = (lo \<le> x \<and> x \<le> hi)"
| "in_class (AnyOf cs) x = (x \<in> set cs)"
| "in_class Dot x = (x \<noteq> 10)"

datatype regex =
    Sym cclass
  | Seq regex regex
  | Alt regex regex       \<comment> \<open>\<^verbatim>\<open>a|b\<close>\<close>
  | Opt regex             \<comment> \<open>\<^verbatim>\<open>a?\<close>, greedy\<close>
  | Rep cclass nat nat    \<comment> \<open>\<^verbatim>\<open>c{m,n}\<close>, greedy\<close>
  | LazyStar cclass       \<comment> \<open>\<^verbatim>\<open>c*?\<close>\<close>
  | Plus cclass           \<comment> \<open>\<^verbatim>\<open>c+\<close>, greedy\<close>
  | Group nat regex       \<comment> \<open>capturing group with its number\<close>

text \<open>The groups captured so far, the latest first.\<close>

type_synonym groups = "(nat \<times> ustring) list"

text \<open>How many leading characters of \<open>s\<close> are in the class.\<close>

definition run_length :: "cclass \<Rightarrow> ustring \<Rightarrow> nat" where
  "run_length c s = length (takeWhile (in_class c) s)"

text \<open>
  \<open>rmatch r g s\<close>: the ways in which \<open>r\<close> matches a prefix of \<open>s\<close>, each with the groups
  after the match and the rest of \<open>s\<close>, in the matcher's order of preference.
\<close>

fun rmatch :: "regex \<Rightarrow> groups \<Rightarrow> ustring \<Rightarrow> (groups \<times> ustring) list" where
  "rmatch (Sym c) g s =
     (case s of [] \<Rightarrow> [] | x # t \<Rightarrow> if in_class c x then [(g, t)] else [])"
| "rmatch (Seq a b) g s = concat (map (\<lambda>(g', s'). rmatch b g' s') (rmatch a g s))"
| "rmatch (Alt a b) g s = rmatch a g s @ rmatch b g s"
| "rmatch (Opt a) g s = rmatch a g s @ [(g, s)]"
| "rmatch (Rep c m n) g s =
     map (\<lambda>k. (g, drop k s)) (rev [m ..< Suc (min n (run_length c s))])"
| "rmatch (LazyStar c) g s = map (\<lambda>k. (g, drop k s)) [0 ..< Suc (run_length c s)]"
| "rmatch (Plus c) g s = map (\<lambda>k. (g, drop k s)) (rev [1 ..< Suc (run_length c s)])"
| "rmatch (Group i a) g s =
     map (\<lambda>(g', s'). ((i, take (length s - length s') s) # g', s')) (rmatch a g s)"

text \<open>\<^verbatim>\<open>re.match\<close>: the first match at the start of the string, if any.\<close>

definition re_match :: "regex \<Rightarrow> ustring \<Rightarrow> groups option" where
  "re_match r s = (case rmatch r [] s of [] \<Rightarrow> None | (g, _) # _ \<Rightarrow> Some g)"

text \<open>\<^verbatim>\<open>re.search\<close>: the first match at the leftmost position that has one.\<close>

fun re_search :: "regex \<Rightarrow> ustring \<Rightarrow> groups option" where
  "re_search r [] = re_match r []"
| "re_search r (x # t) =
     (case re_match r (x # t) of Some g \<Rightarrow> Some g | None \<Rightarrow> re_search r t)"

text \<open>\<^verbatim>\<open>m.group(i)\<close>: \<^verbatim>\<open>None\<close> for a group that took no part in the match.\<close>

definition group :: "groups \<Rightarrow> nat \<Rightarrow> ustring option" where
  "group g i = map_of g i"

section \<open>Date resolver (parse.py, lines 21-54)\<close>

text \<open>
  \<^verbatim>\<open>int(x)\<close> on a string, for the strings that reach it here: a non-empty string of
  the digits 0-9 is read in base ten; anything else is taken to raise \<^verbatim>\<open>ValueError\<close>
  (Python reads a few more forms, such as a sign or blanks, that the groups of the
  pattern cannot hold). \<^verbatim>\<open>int(None)\<close> raises \<^verbatim>\<open>TypeError\<close>.
\<close>

definition is_digit :: "nat \<Rightarrow> bool" where
  "is_digit c = (48 \<le> c \<and> c \<le> 57)"

definition py_int :: "ustring option \<Rightarrow> pyerror + int" where
  "py_int x =
     (case x of
        None \<Rightarrow> Inl TypeError
      | Some s \<Rightarrow>
          if s \<noteq> [] \<and> list_all is_digit s
          then Inr (foldl (\<lambda>a c. 10 * a + int (c - 48)) 0 s)
          else Inl ValueError)"

text \<open>\<^verbatim>\<open>safe_int\<close> (lines 21-22): \<^verbatim>\<open>int(x) if x else None\<close>.\<close>

definition safe_int :: "ustring option \<Rightarrow> pyerror + int option" where
  "safe_int x =
     (if truthy x then (case py_int x of Inl e \<Rightarrow> Inl e | Inr n \<Rightarrow> Inr (Some n))
      else Inr None)"

text \<open>
  The constructor \<^verbatim>\<open>datetime(year, month, day, hour, minute, tzinfo=...)\<close> of Python's
  standard library: \<^verbatim>\<open>ValueError\<close> unless the year is in 1..9999, the month in 1..12, the
  day in 1..(days of that month in that year), the hour in 0..23 and the minute in 0..59.
\<close>

definition is_leap :: "int \<Rightarrow> bool" where
  "is_leap y = (y mod 4 = 0 \<and> (y mod 100 \<noteq> 0 \<or> y mod 400 = 0))"

definition days_in_month :: "int \<Rightarrow> int \<Rightarrow> int" where
  "days_in_month y m =
     (if m = 2 then (if is_leap y then 29 else 28)
      else if m = 4 \<or> m = 6 \<or> m = 9 \<or> m = 11 then 30
      else 31)"

definition datetime_new :: "int \<Rightarrow> int \<Rightarrow> int \<Rightarrow> int \<Rightarrow> int \<Rightarrow> tzinfo \<Rightarrow> pyerror + datetime" where
  "datetime_new y m d h mi z =
     (if 1 \<le> y \<and> y \<le> 9999 \<and> 1 \<le> m \<and> m \<le> 12 \<and> 1 \<le> d \<and> d \<le> days_in_month y m
         \<and> 0 \<le> h \<and> h \<le> 23 \<and> 0 \<le> mi \<and> mi \<le> 59
      then Inr \<lparr>year = y, month = m, day = d, hour = h, minute = mi, tz = z\<rparr>
      else Inl ValueError)"

text \<open>
  \<^verbatim>\<open>date_regexp = r'(?:([0-9]{4})/)?([1-9]|1[012])/([123]?[0-9])'\<close> and
  \<^verbatim>\<open>time_regexp = r'([0-9]{1,2}):([0-9]{1,2})'\<close> (lines 42-43), and the pattern searched
  for, \<^verbatim>\<open>date_regexp + '.*?' + time_regexp\<close> (line 44).
\<close>

definition digit :: cclass where
  "digit = Range (ord CHR ''0'') (ord CHR ''9'')"

definition date_regexp :: regex where
  "date_regexp =
     Seq (Opt (Seq (Group 1 (Rep digit 4 4)) (Sym (Lit (ord CHR ''/'')))))
    (Seq (Group 2 (Alt (Sym (Range (ord CHR ''1'') (ord CHR ''9'')))
                       (Seq (Sym (Lit (ord CHR ''1''))) (Sym (AnyOf (ustr ''012''))))))
    (Seq (Sym (Lit (ord CHR ''/'')))
         (Group 3 (Seq (Opt (Sym (AnyOf (ustr ''123'')))) (Sym digit)))))"

definition time_regexp :: regex where
  "time_regexp =
     Seq (Group 4 (Rep digit 1 2)) (Seq (Sym (Lit (ord CHR '':''))) (Group 5 (Rep digit 1 2)))"

definition pubdate_regexp :: regex where
  "pubdate_regexp = Seq date_regexp (Seq (LazyStar Dot) time_regexp)"

text \<open>
  \<^verbatim>\<open>parse_pubdate(date_str, this_year)\<close>. The year that \<^verbatim>\<open>datetime.now(TZ_TOKYO).year\<close>
  would return when the function runs is the argument \<open>now_year\<close>.
\<close>

definition parse_pubdate :: "ustring \<Rightarrow> int option \<Rightarrow> int \<Rightarrow> pyerror + datetime option" where
  "parse_pubdate date_str this_year now_year =
     (case re_search pubdate_regexp date_str of
        None \<Rightarrow> Inr None
      | Some m \<Rightarrow>
          ebind (safe_int (group m 1)) (\<lambda>y.
          ebind (py_int (group m 2)) (\<lambda>mo.
          ebind (py_int (group m 3)) (\<lambda>d.
          ebind (py_int (group m 4)) (\<lambda>h.
          ebind (py_int (group m 5)) (\<lambda>mi.
          ebind (datetime_new
                  (if y = None \<or> y = Some 0
                   then (case this_year of None \<Rightarrow> now_year | Some ty \<Rightarrow> ty)
                   else the y)
                  mo d h mi TZ_TOKYO) (\<lambda>dt.
          Inr (Some dt))))))))"

text \<open>
  For stating what the search recognizes: the strings a pattern can match, whatever the
  order in which the matcher tries them.
\<close>

fun lang :: "regex \<Rightarrow> ustring set" where
  "lang (Sym c) = {[x] | x. in_class c x}"
| "lang (Seq a b) = {u @ v | u v. u \<in> lang a \<and> v \<in> lang b}"
| "lang (Alt a b) = lang a \<union> lang b"
| "lang (Opt a) = insert [] (lang a)"
| "lang (Rep c m n) = {w. m \<le> length w \<and> length w \<le> n \<and> list_all (in_class c) w}"
| "lang (LazyStar c) = {w. list_all (in_class c) w}"
| "lang (Plus c) = {w. w \<noteq> [] \<and> list_all (in_class c) w}"
| "lang (Group i a) = lang a"

text \<open>
  The shapes of the date and time fragments, as the two patterns have them: an optional
  year of four digits and a slash; a month written 1-9 or 10-12; a slash; a day of one
  digit, or of two digits the first of which is 1, 2 or 3; and a time of one or two
  digits, a colon, and one or two digits.
\<close>

definition digits12 :: "ustring \<Rightarrow> bool" where
  "digits12 w = (1 \<le> length w \<and> length w \<le> 2 \<and> list_all is_digit w)"

definition year_part :: "ustring \<Rightarrow> bool" where
  "year_part y = (y = [] \<or> (\<exists>ds. y = ds @ ustr ''/'' \<and> length ds = 4 \<and> list_all is_digit ds))"

definition month_part :: "ustring \<Rightarrow> bool" where
  "month_part m =
     (\<exists>c. (m = [c] \<and> ord CHR ''1'' \<le> c \<and> c \<le> ord CHR ''9'')
        \<or> (m = [ord CHR ''1'', c] \<and> c \<in> set (ustr ''012'')))"

definition day_part :: "ustring \<Rightarrow> bool" where
  "day_part d =
     (\<exists>a c. is_digit c \<and> (d = [c] \<or> (d = [a, c] \<and> a \<in> set (ustr ''123''))))"

definition date_shape :: "ustring \<Rightarrow> bool" where
  "date_shape D =
     (\<exists>y m d. D = y @ m @ ustr ''/'' @ d \<and> year_part y \<and> month_part m \<and> day_part d)"

definition time_shape :: "ustring \<Rightarrow> bool" where
  "time_shape T = (\<exists>h mi. T = h @ ustr '':'' @ mi \<and> digits12 h \<and> digits12 mi)"

text \<open>
  A date fragment, then characters other than the newline, then a time fragment,
  somewhere in the text.
\<close>

definition has_date_time :: "ustring \<Rightarrow> bool" where
  "has_date_time s =
     (\<exists>pre D mid T post. s = pre @ D @ mid @ T @ post
        \<and> date_shape D \<and> 10 \<notin> set mid \<and> time_shape T)"

section \<open>Parsed documents, as BeautifulSoup presents them\<close>

text \<open>
  The tree that \<^verbatim>\<open>BeautifulSoup(html, 'html5lib')\<close> returns: a node is a string
  (\<^verbatim>\<open>NavigableString\<close>) or a tag with its name, the tokens of its \<^verbatim>\<open>class\<close> attribute, its
  other attributes (a dictionary, here a list of pairs read by \<open>map_of\<close>) and its children.
  The document itself is a tag named \<^verbatim>\<open>[document]\<close>. Parsing is the library's work and
  is not modelled: the functions below start from the tree.
\<close>

datatype node =
    NavigableString ustring
  | Tag ustring "ustring list" "(ustring \<times> ustring) list" "node list"

text \<open>
  An element together with its ancestors, the nearest first: a selector with a
  descendant combinator looks at them. Of an ancestor only the name, the classes and
  the attributes are kept.
\<close>

type_synonym tag_head = "ustring \<times> ustring list \<times> (ustring \<times> ustring) list"

type_synonym element = "tag_head list \<times> node"

fun is_tag :: "node \<Rightarrow> bool" where
  "is_tag (NavigableString s) = False"
| "is_tag (Tag n cl at cs) = True"

text \<open>All nodes below a node, in document order, each with its ancestors.\<close>

fun descendants :: "tag_head list \<Rightarrow> node \<Rightarrow> element list" where
  "descendants anc (NavigableString s) = []"
| "descendants anc (Tag n cl at cs) =
     concat (map (\<lambda>c. ((n, cl, at) # anc, c) # descendants ((n, cl, at) # anc) c) cs)"

definition tags_below :: "element \<Rightarrow> element list" where
  "tags_below el = filter (\<lambda>d. is_tag (snd d)) (descendants (fst el) (snd el))"

fun tag_name :: "node \<Rightarrow> ustring" where
  "tag_name (NavigableString s) = []"
| "tag_name (Tag n cl at cs) = n"

fun tag_classes :: "node \<Rightarrow> ustring list" where
  "tag_classes (NavigableString s) = []"
| "tag_classes (Tag n cl at cs) = cl"

fun tag_attrs :: "node \<Rightarrow> (ustring \<times> ustring) list" where
  "tag_attrs (NavigableString s) = []"
| "tag_attrs (Tag n cl at cs) = at"

text \<open>\<^verbatim>\<open>tag[key]\<close>: \<^verbatim>\<open>KeyError\<close> when the tag has no such attribute.\<close>

definition getitem :: "element \<Rightarrow> ustring \<Rightarrow> pyerror + ustring" where
  "getitem el key =
     (case map_of (tag_attrs (snd el)) key of None \<Rightarrow> Inl KeyError | Some v \<Rightarrow> Inr v)"

text \<open>\<^verbatim>\<open>tag.strings\<close>: the strings below the tag, in document order.\<close>

fun strings :: "node \<Rightarrow> ustring list" where
  "strings (NavigableString s) = [s]"
| "strings (Tag n cl at cs) = concat (map strings cs)"

text \<open>
  \<^verbatim>\<open>tag.string\<close>: the single string child, or the \<^verbatim>\<open>.string\<close> of the single tag child;
  \<^verbatim>\<open>None\<close> when the tag has no child or more than one.
\<close>

fun string_of :: "node \<Rightarrow> ustring option" where
  "string_of (NavigableString s) = Some s"
| "string_of (Tag n cl at [c]) = string_of c"
| "string_of (Tag n cl at cs) = None"

text \<open>
  The selectors of parse.py: a compound selector is a tag name with an optional class and
  an optional \<^verbatim>\<open>[attribute="value"]\<close>; a selector is a chain of compounds joined by the
  descendant combinator (a blank), the subject last.
\<close>

datatype compound = Compound ustring "ustring option" "(ustring \<times> ustring) option"

fun matches_compound :: "compound \<Rightarrow> tag_head \<Rightarrow> bool" where
  "matches_compound (Compound n c a) (name, classes, attrs) =
     (name = n
      \<and> (case c of None \<Rightarrow> True | Some k \<Rightarrow> k \<in> set classes)
      \<and> (case a of None \<Rightarrow> True | Some (key, v) \<Rightarrow> map_of attrs key = Some v))"

text \<open>
  The remaining compounds, innermost first, are matched by ancestors in that order going
  up; the ancestors may lie above the element that \<^verbatim>\<open>select\<close> was called on.
\<close>

fun matches_up :: "compound list \<Rightarrow> tag_head list \<Rightarrow> bool" where
  "matches_up [] anc = True"
| "matches_up (c # cs) [] = False"
| "matches_up (c # cs) (a # anc) =
     ((matches_compound c a \<and> matches_up cs anc) \<or> matches_up (c # cs) anc)"

definition matches_selector :: "compound list \<Rightarrow> element \<Rightarrow> bool" where
  "matches_selector sel el =
     (case rev sel of
        [] \<Rightarrow> False
      | c # cs \<Rightarrow>
          is_tag (snd el)
          \<and> matches_compound c (tag_name (snd el), tag_classes (snd el), tag_attrs (snd el))
          \<and> matches_up cs (fst el))"

text \<open>\<^verbatim>\<open>elem.select(spec)\<close>: the tags below \<open>elem\<close> that match, in document order.\<close>

definition select :: "element \<Rightarrow> compound list \<Rightarrow> element list" where
  "select el sel = filter (matches_selector sel) (tags_below el)"

text \<open>\<^verbatim>\<open>soup.find(id=...)\<close>: the first tag below with that \<^verbatim>\<open>id\<close>, or \<^verbatim>\<open>None\<close>.\<close>

definition find_id :: "element \<Rightarrow> ustring \<Rightarrow> element option" where
  "find_id el v =
     (case filter (\<lambda>d. map_of (tag_attrs (snd d)) (ustr ''id'') = Some v) (tags_below el) of
        [] \<Rightarrow> None
      | d # _ \<Rightarrow> Some d)"

text \<open>\<^verbatim>\<open>elem.find_all(name, **{'class': c})\<close>: the tags below with that name and class.\<close>

definition find_all :: "element \<Rightarrow> ustring \<Rightarrow> ustring \<Rightarrow> element list" where
  "find_all el n c =
     filter (\<lambda>d. tag_name (snd d) = n \<and> c \<in> set (tag_classes (snd d))) (tags_below el)"

section \<open>Entry and page extraction (parse.py, lines 14-18 and 57-131)\<close>

text \<open>\<^verbatim>\<open>select1\<close> (lines 14-18): the first match or \<^verbatim>\<open>None\<close>.\<close>

definition select1 :: "element \<Rightarrow> compound list \<Rightarrow> element option" where
  "select1 elem spec = (case select elem spec of [] \<Rightarrow> None | r # _ \<Rightarrow> Some r)"

definition sel_a_entryBody :: "compound list" where
  "sel_a_entryBody = [Compound (ustr ''a'') (Some (ustr ''entryBody'')) None]"

definition sel_dd_thumb_img :: "compound list" where
  "sel_dd_thumb_img =
     [Compound (ustr ''dd'') (Some (ustr ''thumb'')) None, Compound (ustr ''img'') None None]"

definition sel_dt_ttl :: "compound list" where
  "sel_dt_ttl = [Compound (ustr ''dt'') (Some (ustr ''ttl'')) None]"

definition sel_dd_summary :: "compound list" where
  "sel_dd_summary = [Compound (ustr ''dd'') (Some (ustr ''summary'')) None]"

definition sel_dd_pubdate :: "compound list" where
  "sel_dd_pubdate = [Compound (ustr ''dd'') (Some (ustr ''pubdate'')) None]"

definition sel_title :: "compound list" where
  "sel_title = [Compound (ustr ''title'') None None]"

definition sel_head_title :: "compound list" where
  "sel_head_title = [Compound (ustr ''head'') None None, Compound (ustr ''title'') None None]"

definition sel_meta_description :: "compound list" where
  "sel_meta_description =
     [Compound (ustr ''meta'') None (Some (ustr ''name'', ustr ''description''))]"

definition sel_link_canonical :: "compound list" where
  "sel_link_canonical =
     [Compound (ustr ''link'') None (Some (ustr ''rel'', ustr ''canonical''))]"

text \<open>\<^verbatim>\<open>x and x[key]\<close>: \<^verbatim>\<open>None\<close> without the element, else the subscript, which may raise.\<close>

definition and_getitem :: "element option \<Rightarrow> ustring \<Rightarrow> pyerror + ustring option" where
  "and_getitem x key =
     (case x of
        None \<Rightarrow> Inr None
      | Some el \<Rightarrow> (case getitem el key of Inl e \<Rightarrow> Inl e | Inr v \<Rightarrow> Inr (Some v)))"

definition extract_entry_link :: "element \<Rightarrow> pyerror + ustring option" where
  "extract_entry_link entry_elem = and_getitem (select1 entry_elem sel_a_entryBody) (ustr ''href'')"

definition extract_entry_thumbnail :: "element \<Rightarrow> pyerror + ustring option" where
  "extract_entry_thumbnail entry_elem =
     and_getitem (select1 entry_elem sel_dd_thumb_img) (ustr ''src'')"

definition extract_entry_title :: "element \<Rightarrow> ustring option" where
  "extract_entry_title entry_elem =
     (case select1 entry_elem sel_dt_ttl of
        None \<Rightarrow> None
      | Some ttl \<Rightarrow> Some (concat (strings (snd ttl))))"

definition extract_entry_summary :: "element \<Rightarrow> ustring option" where
  "extract_entry_summary entry_elem =
     (case select1 entry_elem sel_dd_summary of
        None \<Rightarrow> None
      | Some elem \<Rightarrow> Some (concat (strings (snd elem))))"

definition extract_entry_pubdate :: "element \<Rightarrow> int \<Rightarrow> pyerror + datetime option" where
  "extract_entry_pubdate entry_elem now_year =
     (case select1 entry_elem sel_dd_pubdate of
        None \<Rightarrow> Inr None
      | Some elem \<Rightarrow> parse_pubdate (concat (strings (snd elem))) None now_year)"

definition parse_entry :: "element \<Rightarrow> int \<Rightarrow> pyerror + Entry" where
  "parse_entry entry_elem now_year =
     ebind (extract_entry_link entry_elem) (\<lambda>u.
     ebind (extract_entry_thumbnail entry_elem) (\<lambda>th.
     ebind (extract_entry_pubdate entry_elem now_year) (\<lambda>pd.
       Inr \<lparr>url = u, title = extract_entry_title entry_elem,
            summary = extract_entry_summary entry_elem, pubdate = pd, thumbnail = th\<rparr>)))"

text \<open>The list comprehension of line 96: the first entry that raises ends it.\<close>

fun parse_entries :: "element list \<Rightarrow> int \<Rightarrow> pyerror + Entry list" where
  "parse_entries [] now_year = Inr []"
| "parse_entries (x # xs) now_year =
     ebind (parse_entry x now_year) (\<lambda>e.
     ebind (parse_entries xs now_year) (\<lambda>es. Inr (e # es)))"

definition extract_entries :: "element \<Rightarrow> int \<Rightarrow> pyerror + Entry list" where
  "extract_entries soup now_year =
     (case find_id soup (ustr ''athr_al'') of
        None \<Rightarrow> Inr []
      | Some lst \<Rightarrow> parse_entries (find_all lst (ustr ''li'') (ustr ''entry'')) now_year)"

definition extract_title :: "element \<Rightarrow> ustring option" where
  "extract_title soup =
     (case select1 soup sel_title of None \<Rightarrow> None | Some title_elem \<Rightarrow> string_of (snd title_elem))"

definition extract_description :: "element \<Rightarrow> pyerror + ustring option" where
  "extract_description soup = and_getitem (select1 soup sel_meta_description) (ustr ''content'')"

definition extract_canonical_url :: "element \<Rightarrow> pyerror + ustring option" where
  "extract_canonical_url soup = and_getitem (select1 soup sel_link_canonical) (ustr ''href'')"

text \<open>The pattern \<^verbatim>\<open>'(.+)'\<close> followed by the five characters of the listing-page title.\<close>

fun literal :: "nat \<Rightarrow> ustring \<Rightarrow> regex" where
  "literal c [] = Sym (Lit c)"
| "literal c (d # ds) = Seq (Sym (Lit c)) (literal d ds)"

definition article_list_suffix :: ustring where
  "article_list_suffix = [0x306E, 0x8A18, 0x4E8B, 0x4E00, 0x89A7]"

definition author_regexp :: regex where
  "author_regexp = Seq (Group 1 (Plus Dot)) (literal 0x306E [0x8A18, 0x4E8B, 0x4E00, 0x89A7])"

text \<open>
  \<^verbatim>\<open>extract_author\<close> (lines 115-120). \<^verbatim>\<open>re.match(pattern, None)\<close> raises \<^verbatim>\<open>TypeError\<close>;
  \<^verbatim>\<open>m and m.group(1) or None\<close> is the group when there is a match (the group is not empty).
\<close>

definition extract_author :: "element \<Rightarrow> pyerror + ustring option" where
  "extract_author soup =
     (case select1 soup sel_head_title of
        None \<Rightarrow> Inr None
      | Some title_elem \<Rightarrow>
          (case string_of (snd title_elem) of
             None \<Rightarrow> Inl TypeError
           | Some s \<Rightarrow>
               (case re_match author_regexp s of
                  None \<Rightarrow> Inr None
                | Some m \<Rightarrow> Inr (if truthy (group m 1) then group m 1 else None))))"

text \<open>
  \<^verbatim>\<open>parse\<close> (lines 123-131), from the parsed document on; \<open>now_year\<close> is the current year
  in Tokyo, for the dates that leave the year out.
\<close>

definition parse :: "element \<Rightarrow> int \<Rightarrow> pyerror + FeedData" where
  "parse soup now_year =
     ebind (extract_author soup) (\<lambda>a.
     ebind (extract_description soup) (\<lambda>d.
     ebind (extract_canonical_url soup) (\<lambda>canonical_url.
     ebind (extract_entries soup now_year) (\<lambda>es.
       Inr \<lparr>feed_title = extract_title soup, feed_url = canonical_url, author = a,
            description = d, entries = es\<rparr>))))"

text \<open>
  For stating when extraction succeeds: an element carries an attribute; and a list item
  is sound when its anchor, if any, carries \<^verbatim>\<open>href\<close>, its thumbnail image, if any,
  carries \<^verbatim>\<open>src\<close>, and the text of its date element, if any, is resolved without error.
\<close>

definition has_attr :: "element \<Rightarrow> ustring \<Rightarrow> bool" where
  "has_attr el key = (map_of (tag_attrs (snd el)) key \<noteq> None)"

definition entry_sound :: "element \<Rightarrow> int \<Rightarrow> bool" where
  "entry_sound x now_year =
     ((\<forall>l. select1 x sel_a_entryBody = Some l \<longrightarrow> has_attr l (ustr ''href''))
      \<and> (\<forall>i. select1 x sel_dd_thumb_img = Some i \<longrightarrow> has_attr i (ustr ''src''))
      \<and> (\<forall>d. select1 x sel_dd_pubdate = Some d \<longrightarrow>
            (\<exists>r. parse_pubdate (concat (strings (snd d))) None now_year = Inr r)))"

text \<open>
  A small listing page, for the examples: a head with the title \<open>A\<close> followed by the
  listing-page suffix, and a body whose article list holds one item with an anchor, a
  title and a date, and one empty item.
\<close>

definition ex_item1 :: node where
  "ex_item1 =
     Tag (ustr ''li'') [ustr ''entry''] []
       [Tag (ustr ''a'') [ustr ''entryBody''] [(ustr ''href'', ustr ''http://e/1'')]
          [Tag (ustr ''dt'') [ustr ''ttl''] [] [NavigableString (ustr ''T'')],
           Tag (ustr ''dd'') [ustr ''pubdate''] [] [NavigableString (ustr ''9/2(Wed) 8:32'')]]]"

definition ex_item2 :: node where
  "ex_item2 = Tag (ustr ''li'') [ustr ''entry''] [] []"

definition ex_list :: node where
  "ex_list = Tag (ustr ''ul'') [] [(ustr ''id'', ustr ''athr_al'')] [ex_item1, ex_item2]"

definition ex_body :: node where
  "ex_body = Tag (ustr ''body'') [] [] [ex_list]"

definition ex_head :: node where
  "ex_head =
     Tag (ustr ''head'') [] []
       [Tag (ustr ''title'') [] [] [NavigableString (ustr ''A'' @ article_list_suffix)]]"

definition ex_html :: node where
  "ex_html = Tag (ustr ''html'') [] [] [ex_head, ex_body]"

definition ex_soup :: element where
  "ex_soup = ([], Tag (ustr ''[document]'') [] [] [ex_html])"

text \<open>
  Pages that differ from it: the anchor of the only item has no \<^verbatim>\<open>href\<close>; the date of the
  only item is the 31st of September; the title element is empty.
\<close>

definition page_of :: "node list \<Rightarrow> node list \<Rightarrow> element" where
  "page_of title_children list_items =
     ([], Tag (ustr ''[document]'') [] []
        [Tag (ustr ''html'') [] []
           [Tag (ustr ''head'') [] [] [Tag (ustr ''title'') [] [] title_children],
            Tag (ustr ''body'') [] []
              [Tag (ustr ''ul'') [] [(ustr ''id'', ustr ''athr_al'')] list_items]]])"

definition soup_anchor_without_href :: element where
  "soup_anchor_without_href =
     page_of [NavigableString (ustr ''A'' @ article_list_suffix)]
       [Tag (ustr ''li'') [ustr ''entry''] []
          [Tag (ustr ''a'') [ustr ''entryBody''] [] [NavigableString (ustr ''T'')]]]"

definition soup_september_31 :: element where
  "soup_september_31 =
     page_of [NavigableString (ustr ''A'' @ article_list_suffix)]
       [Tag (ustr ''li'') [ustr ''entry''] []
          [Tag (ustr ''dd'') [ustr ''pubdate''] [] [NavigableString (ustr ''9/31(Thu) 8:32'')]]]"

definition soup_empty_title :: element where
  "soup_empty_title = page_of [] []"

text \<open>The article list of the small page and its two items, as elements.\<close>

definition ex_list_elem :: element where
  "ex_list_elem =
     ([(ustr ''body'', [], []), (ustr ''html'', [], []), (ustr ''[document]'', [], [])], ex_list)"

definition ex_item_elems :: "element list" where
  "ex_item_elems =
     [((ustr ''ul'', [], [(ustr ''id'', ustr ''athr_al'')]) # fst ex_list_elem, ex_item1),
      ((ustr ''ul'', [], [(ustr ''id'', ustr ''athr_al'')]) # fst ex_list_elem, ex_item2)]"

text \<open>
  A page is sound when its head title, if any, has a string, its meta description, if
  any, carries \<^verbatim>\<open>content\<close>, and its canonical link, if any, carries \<^verbatim>\<open>href\<close>. And a string
  names an author when a non-empty prefix of it, free of newlines, is followed by the
  listing-page suffix.
\<close>

definition page_sound :: "element \<Rightarrow> bool" where
  "page_sound soup =
     ((\<forall>t. select1 soup sel_head_title = Some t \<longrightarrow> string_of (snd t) \<noteq> None)
      \<and> (\<forall>m. select1 soup sel_meta_description = Some m \<longrightarrow> has_attr m (ustr ''content''))
      \<and> (\<forall>l. select1 soup sel_link_canonical = Some l \<longrightarrow> has_attr l (ustr ''href'')))"

definition author_prefix :: "ustring \<Rightarrow> ustring \<Rightarrow> bool" where
  "author_prefix p s =
     (p \<noteq> [] \<and> 10 \<notin> set p \<and> (\<exists>rest. s = p @ article_list_suffix @ rest))"

section \<open>Validation: properties\<close>

text \<open>
  C7. \<open>validate_feeddata\<close> returns false exactly when the author, the title or the url is
  absent, the empty string counting as absent (so \<open>author = ""\<close>, \<open>title = "x"\<close>,
  \<open>url = "y"\<close> is invalid); a FeedData with all three present and no entries is valid, and
  the only effect is one logged warning.
\<close>

theorem validate_feeddata_false_iff:
  "(fst (validate_feeddata data) = False) =
     (\<not> truthy (author data) \<or> \<not> truthy (feed_title data) \<or> \<not> truthy (feed_url data))
   \<and> (\<forall>d e. fst (validate_feeddata
          \<lparr>feed_title = Some (ustr ''x''), feed_url = Some (ustr ''y''),
           author = Some [], description = d, entries = e\<rparr>) = False)
   \<and> (truthy (author data) \<and> truthy (feed_title data) \<and> truthy (feed_url data)
        \<and> entries data = []
      \<longrightarrow> validate_feeddata data = (True, [LOG_warning NoEntries]))"
  by (simp add: validate_feeddata_def)

theorem validate_feeddata_false_iff_witness:
  "truthy (Some (ustr ''a'')) \<and> truthy (Some (ustr ''x'')) \<and> truthy (Some (ustr ''y''))
   \<and> validate_feeddata
        \<lparr>feed_title = Some (ustr ''x''), feed_url = Some (ustr ''y''),
         author = Some (ustr ''a''), description = None, entries = []\<rparr>
       = (True, [LOG_warning NoEntries])"
  using validate_feeddata_false_iff
    [of "\<lparr>feed_title = Some (ustr ''x''), feed_url = Some (ustr ''y''),
         author = Some (ustr ''a''), description = None, entries = []\<rparr>"]
  by (simp add: ustr_def)

section \<open>Feed serializer: properties\<close>

lemma make_rss_no_author:
  "\<not> truthy (author d) \<Longrightarrow> make_rss writeString w d = Inl ValueError"
  by (cases "author d") (simp_all add: make_rss_def)

lemma make_rss_author:
  "author d = Some a \<Longrightarrow> a \<noteq> [] \<Longrightarrow>
   make_rss writeString w d =
     writeString (foldl (add_item a) (Rss201rev2Feed a d) (entries d)) w"
  by (simp add: make_rss_def)

text \<open>
  \<open>make_rss\<close> depends on the moment of the call through the serializer only: with a
  serializer that gives the same result at two moments, so does \<open>make_rss\<close>.
\<close>

lemma make_rss_moment:
  "(\<forall>feed. writeString feed w1 = writeString feed w2) \<Longrightarrow>
   make_rss writeString w1 d = make_rss writeString w2 d"
  by (simp add: make_rss_def split: option.splits)




lemma foldl_add_item:
  "foldl (add_item a) feed es = feed\<lparr>items := items feed @ map (item_of a) es\<rparr>"
  by (induction es arbitrary: feed) (simp_all add: add_item_def)

lemma item_of_thumbnail: "item_of a (e\<lparr>thumbnail := t\<rparr>) = item_of a e"
  by (simp add: item_of_def)

lemma map_item_of_cong:
  assumes "map (\<lambda>e. e\<lparr>thumbnail := None\<rparr>) es1 = map (\<lambda>e. e\<lparr>thumbnail := None\<rparr>) es2"
  shows "map (item_of a) es1 = map (item_of a) es2"
proof -
  have eq: "map (item_of a) es = map (item_of a) (map (\<lambda>e. e\<lparr>thumbnail := None\<rparr>) es)" for es
    by (simp add: item_of_thumbnail)
  have "map (item_of a) es1 = map (item_of a) (map (\<lambda>e. e\<lparr>thumbnail := None\<rparr>) es1)"
    by (rule eq)
  also have "\<dots> = map (item_of a) (map (\<lambda>e. e\<lparr>thumbnail := None\<rparr>) es2)"
    by (simp only: assms)
  also have "\<dots> = map (item_of a) es2"
    by (rule eq [symmetric])
  finally show ?thesis .
qed

text \<open>
  C10. The rendered document does not depend on the FeedData title nor on the entries'
  thumbnails: two FeedData values that agree on url, author and description, and whose
  entries agree once the thumbnails are erased, are rendered alike (by any serializer, at
  the same moment); and with an author present the channel title of the feed handed to
  the serializer is the author followed by the fixed literal of feed.py, line 15.
\<close>

theorem make_rss_ignores_title_and_thumbnails:
  assumes "feed_url d1 = feed_url d2" and "author d1 = author d2"
    and "description d1 = description d2"
    and "map (\<lambda>e. e\<lparr>thumbnail := None\<rparr>) (entries d1)
         = map (\<lambda>e. e\<lparr>thumbnail := None\<rparr>) (entries d2)"
  shows "make_rss writeString w d1 = make_rss writeString w d2
       \<and> (\<forall>a. author d1 = Some a \<and> a \<noteq> [] \<longrightarrow>
            (\<exists>feed. make_rss writeString w d1 = writeString feed w
               \<and> channel_title feed = a @ channel_title_suffix))"
proof -
  have feeds: "foldl (add_item a) (Rss201rev2Feed a d1) (entries d1)
             = foldl (add_item a) (Rss201rev2Feed a d2) (entries d2)" for a
    using assms(1,3) map_item_of_cong [OF assms(4), of a]
    by (simp add: foldl_add_item Rss201rev2Feed_def)
  have same: "make_rss writeString w d1 = make_rss writeString w d2"
    using assms(2) feeds by (simp add: make_rss_def split: option.splits)
  have "channel_title (foldl (add_item a) (Rss201rev2Feed a d1) (entries d1))
        = a @ channel_title_suffix" for a
    by (simp add: foldl_add_item Rss201rev2Feed_def)
  then have "\<exists>feed. make_rss writeString w d1 = writeString feed w
               \<and> channel_title feed = a @ channel_title_suffix"
    if "author d1 = Some a \<and> a \<noteq> []" for a
    using that make_rss_author [of d1 a writeString w] by (intro exI conjI) auto
  with same show ?thesis by simp
qed

text \<open>
  Two feeds that differ in the title and in the thumbnail of their entry, rendered by a
  serializer that returns the channel title.
\<close>

theorem make_rss_ignores_title_and_thumbnails_witness:
  "make_rss (\<lambda>f (t::nat). Inr (channel_title f)) 0
     \<lparr>feed_title = Some (ustr ''t1''), feed_url = None, author = Some (ustr ''a''),
      description = None,
      entries = [\<lparr>url = None, title = Some (ustr ''e''), summary = None, pubdate = None,
                  thumbnail = Some (ustr ''p.png'')\<rparr>]\<rparr>
   = make_rss (\<lambda>f (t::nat). Inr (channel_title f)) 0
     \<lparr>feed_title = Some (ustr ''t2''), feed_url = None, author = Some (ustr ''a''),
      description = None,
      entries = [\<lparr>url = None, title = Some (ustr ''e''), summary = None, pubdate = None,
                  thumbnail = None\<rparr>]\<rparr>"
proof -
  let ?ws = "\<lambda>(f::rss_feed) (t::nat). (Inr (channel_title f) :: pyerror + ustring)"
  let ?d1 = "\<lparr>feed_title = Some (ustr ''t1''), feed_url = None, author = Some (ustr ''a''),
      description = None,
      entries = [\<lparr>url = None, title = Some (ustr ''e''), summary = None, pubdate = None,
                  thumbnail = Some (ustr ''p.png'')\<rparr>]\<rparr>"
  let ?d2 = "\<lparr>feed_title = Some (ustr ''t2''), feed_url = None, author = Some (ustr ''a''),
      description = None,
      entries = [\<lparr>url = None, title = Some (ustr ''e''), summary = None, pubdate = None,
                  thumbnail = None\<rparr>]\<rparr>"
  have "make_rss ?ws 0 ?d1 = make_rss ?ws 0 ?d2
       \<and> (\<forall>a. author ?d1 = Some a \<and> a \<noteq> [] \<longrightarrow>
            (\<exists>feed. make_rss ?ws 0 ?d1 = ?ws feed 0
               \<and> channel_title feed = a @ channel_title_suffix))"
    by (rule make_rss_ignores_title_and_thumbnails) simp_all
  then show ?thesis by blast
qed

section \<open>Merging several feeds: properties\<close>

lemma insert_sorted_total:
  assumes "\<forall>y\<in>set ys. lt x y = Inr (k x < k y)"
  shows "insert_sorted lt x ys = Inr (ins_behind k x ys)"
  using assms by (induction ys) auto

lemma mset_ins_behind: "mset (ins_behind k x ys) = add_mset x (mset ys)"
  by (induction ys) auto

lemma set_ins_behind: "set (ins_behind k x ys) = insert x (set ys)"
  by (induction ys) auto

lemma sorted_ins_behind:
  "sorted (map k ys) \<Longrightarrow> sorted (map k (ins_behind k x ys))"
  by (induction ys) (auto simp: set_ins_behind)

lemma filter_ins_behind:
  "sorted (map k ys) \<Longrightarrow>
   filter (\<lambda>e. k e = c) (ins_behind k x ys)
     = filter (\<lambda>e. k e = c) ys @ (if k x = c then [x] else [])"
proof (induction ys)
  case Nil
  then show ?case by simp
next
  case (Cons y ys)
  show ?case
  proof (cases "k x < k y")
    case True
    have "\<forall>e\<in>set (y # ys). k x < k e"
      using True Cons.prems by auto
    then have "filter (\<lambda>e. k e = k x) (y # ys) = []"
      by (auto simp: filter_empty_conv)
    then show ?thesis
      using True by auto
  next
    case False
    then show ?thesis
      using Cons by auto
  qed
qed

lemma sort_into_total:
  assumes "\<forall>x\<in>set acc \<union> set xs. \<forall>y\<in>set acc \<union> set xs. lt x y = Inr (k x < k y)"
    and "sorted (map k acc)"
  shows "\<exists>r. sort_into lt acc xs = Inr r \<and> mset r = mset acc + mset xs
           \<and> sorted (map k r)
           \<and> (\<forall>c. filter (\<lambda>e. k e = c) r
                  = filter (\<lambda>e. k e = c) acc @ filter (\<lambda>e. k e = c) xs)"
  using assms
proof (induction xs arbitrary: acc)
  case Nil
  then show ?case by simp
next
  case (Cons x xs)
  have ins: "insert_sorted lt x acc = Inr (ins_behind k x acc)"
    using Cons.prems(1) by (intro insert_sorted_total) auto
  have cmp: "\<forall>a\<in>set (ins_behind k x acc) \<union> set xs.
             \<forall>b\<in>set (ins_behind k x acc) \<union> set xs. lt a b = Inr (k a < k b)"
    using Cons.prems(1) by (auto simp: set_ins_behind)
  have srt: "sorted (map k (ins_behind k x acc))"
    using Cons.prems(2) by (rule sorted_ins_behind)
  from Cons.IH [OF cmp srt] obtain r where
    r: "sort_into lt (ins_behind k x acc) xs = Inr r"
       "mset r = mset (ins_behind k x acc) + mset xs"
       "sorted (map k r)"
       "\<forall>c. filter (\<lambda>e. k e = c) r
            = filter (\<lambda>e. k e = c) (ins_behind k x acc) @ filter (\<lambda>e. k e = c) xs"
    by blast
  show ?case
    using r ins Cons.prems(2) by (simp add: mset_ins_behind filter_ins_behind)
qed

lemma tzinfo_eq: "(t1 :: tzinfo) = t2"
  by (cases t1, cases t2) simp

lemma datetime_fields_inj: "(datetime_fields a = datetime_fields b) = (a = b)"
  by (cases a, cases b) (auto simp: datetime_fields_def intro: tzinfo_eq)

lemma key_lt_present:
  assumes "pubdate a \<noteq> None" "title a \<noteq> None" "pubdate b \<noteq> None" "title b \<noteq> None"
  shows "key_lt (sort_key_of a) (sort_key_of b) = Inr (present_key a < present_key b)"
proof -
  from assms obtain da ta db tb where
    f: "pubdate a = Some da" "title a = Some ta" "pubdate b = Some db" "title b = Some tb"
    by auto
  show ?thesis
  proof (cases "da = db")
    case True
    then show ?thesis
      using f by (auto simp: key_lt_def title_lt_def sort_key_of_def present_key_def)
  next
    case False
    then have "datetime_fields da \<noteq> datetime_fields db"
      by (simp add: datetime_fields_inj)
    then show ?thesis
      using f False
      by (auto simp: key_lt_def title_lt_def sort_key_of_def present_key_def less_prod_def)
  qed
qed

lemma sorted_reverse_present:
  assumes "\<forall>e\<in>set es. pubdate e \<noteq> None \<and> title e \<noteq> None"
  shows "\<exists>r. sorted_reverse es = Inr r \<and> mset r = mset es
           \<and> sorted_wrt (\<lambda>a b. present_key b \<le> present_key a) r
           \<and> (\<forall>c. filter (\<lambda>e. present_key e = c) r = filter (\<lambda>e. present_key e = c) es)"
proof -
  let ?lt = "\<lambda>a b. key_lt (sort_key_of a) (sort_key_of b)"
  have cmp: "\<forall>x\<in>set [] \<union> set (rev es). \<forall>y\<in>set [] \<union> set (rev es).
               ?lt x y = Inr (present_key x < present_key y)"
    using assms by (simp add: key_lt_present)
  have "sorted (map present_key [])" by simp
  from sort_into_total [OF cmp this] obtain r where
    r: "sort_into ?lt [] (rev es) = Inr r" "mset r = mset (rev es)"
       "sorted (map present_key r)"
       "\<forall>c. filter (\<lambda>e. present_key e = c) r = filter (\<lambda>e. present_key e = c) (rev es)"
    by auto
  have 1: "sorted_reverse es = Inr (rev r)"
    using r(1) by (simp add: sorted_reverse_def)
  have 2: "mset (rev r) = mset es"
    using r(2) by simp
  have "sorted_wrt (\<lambda>a b. present_key a \<le> present_key b) r"
    using r(3) by (simp add: sorted_map)
  then have 3: "sorted_wrt (\<lambda>a b. present_key b \<le> present_key a) (rev r)"
    by (simp add: sorted_wrt_rev)
  have 4: "filter (\<lambda>e. present_key e = c) (rev r) = filter (\<lambda>e. present_key e = c) es" for c
  proof -
    have "filter (\<lambda>e. present_key e = c) (rev r) = rev (filter (\<lambda>e. present_key e = c) r)"
      by (simp add: rev_filter)
    also have "\<dots> = rev (filter (\<lambda>e. present_key e = c) (rev es))"
      using r(4) by (simp only:)
    also have "\<dots> = filter (\<lambda>e. present_key e = c) es"
      by (simp add: rev_filter)
    finally show ?thesis .
  qed
  from 1 2 3 4 show ?thesis by blast
qed

lemma those_map_author:
  "\<forall>f\<in>set feeds. author f \<noteq> None \<Longrightarrow>
   those (map author feeds) = Some (map (\<lambda>f. the (author f)) feeds)"
  by (induction feeds) auto

lemma finish_feeddata_authors:
  assumes "\<forall>f\<in>set feeds. author f \<noteq> None" and "feeds = first # rest"
    and "sorted_reverse (concat (map entries feeds)) = Inr r"
  shows "finish_feeddata feeds =
     Inr \<lparr>feed_title = Some (intercalate (ustr '', '') (map (\<lambda>f. the (author f)) feeds)
                               @ merged_title_suffix),
          feed_url = feed_url first,
          author = Some (intercalate (ustr '', '') (map (\<lambda>f. the (author f)) feeds)),
          description = Some [],
          entries = r\<rparr>"
  using assms(2,3) those_map_author [OF assms(1)]
  by (simp add: finish_feeddata_def str_join_def ebind_def)

text \<open>
  C3. For two or more feeds, each with an author, whose entries all have a pubdate and a
  title, the merged FeedData exists; its author is the authors joined by comma and space
  in input order; its url is the url of the first feed; its entries are a rearrangement
  of the concatenation of all entries, in descending order of the pair (pubdate, title),
  and entries with equal pairs keep their input order. In particular feeds with entries
  dated [2021-01-01, 2021-03-01] and [2021-02-01] merge to the order
  [2021-03-01, 2021-02-01, 2021-01-01].
\<close>

theorem finish_feeddata_sorted:
  assumes "2 \<le> length feeds"
    and "\<forall>f\<in>set feeds. author f \<noteq> None"
    and "\<forall>f\<in>set feeds. \<forall>e\<in>set (entries f). pubdate e \<noteq> None \<and> title e \<noteq> None"
  shows "(\<exists>data. finish_feeddata feeds = Inr data
      \<and> author data = Some (intercalate (ustr '', '') (map (\<lambda>f. the (author f)) feeds))
      \<and> feed_url data = feed_url (hd feeds)
      \<and> mset (entries data) = mset (concat (map entries feeds))
      \<and> sorted_wrt (\<lambda>a b. present_key b \<le> present_key a) (entries data)
      \<and> (\<forall>k. filter (\<lambda>e. present_key e = k) (entries data)
               = filter (\<lambda>e. present_key e = k) (concat (map entries feeds))))
    \<and> (\<forall>f1 f2 e1 e2 e3.
          author f1 \<noteq> None \<and> author f2 \<noteq> None
          \<and> entries f1 = [e1, e2] \<and> entries f2 = [e3]
          \<and> pubdate e1 = Some \<lparr>year = 2021, month = 1, day = 1, hour = 0, minute = 0, tz = TZ_TOKYO\<rparr>
          \<and> pubdate e2 = Some \<lparr>year = 2021, month = 3, day = 1, hour = 0, minute = 0, tz = TZ_TOKYO\<rparr>
          \<and> pubdate e3 = Some \<lparr>year = 2021, month = 2, day = 1, hour = 0, minute = 0, tz = TZ_TOKYO\<rparr>
          \<longrightarrow> (\<exists>data. finish_feeddata [f1, f2] = Inr data \<and> entries data = [e2, e3, e1]))"
proof -
  from assms(1) obtain first rest where feeds: "feeds = first # rest"
    by (cases feeds) auto
  have "\<forall>e\<in>set (concat (map entries feeds)). pubdate e \<noteq> None \<and> title e \<noteq> None"
    using assms(3) by auto
  from sorted_reverse_present [OF this] obtain r where
    r: "sorted_reverse (concat (map entries feeds)) = Inr r"
       "mset r = mset (concat (map entries feeds))"
       "sorted_wrt (\<lambda>a b. present_key b \<le> present_key a) r"
       "\<forall>c. filter (\<lambda>e. present_key e = c) r
            = filter (\<lambda>e. present_key e = c) (concat (map entries feeds))"
    by blast
  have general: "\<exists>data. finish_feeddata feeds = Inr data
      \<and> author data = Some (intercalate (ustr '', '') (map (\<lambda>f. the (author f)) feeds))
      \<and> feed_url data = feed_url (hd feeds)
      \<and> mset (entries data) = mset (concat (map entries feeds))
      \<and> sorted_wrt (\<lambda>a b. present_key b \<le> present_key a) (entries data)
      \<and> (\<forall>k. filter (\<lambda>e. present_key e = k) (entries data)
               = filter (\<lambda>e. present_key e = k) (concat (map entries feeds)))"
    using finish_feeddata_authors [OF assms(2) feeds r(1)] r(2,3,4) feeds by simp
  have example: "\<exists>data. finish_feeddata [f1, f2] = Inr data \<and> entries data = [e2, e3, e1]"
    if h: "author f1 \<noteq> None \<and> author f2 \<noteq> None
          \<and> entries f1 = [e1, e2] \<and> entries f2 = [e3]
          \<and> pubdate e1 = Some \<lparr>year = 2021, month = 1, day = 1, hour = 0, minute = 0, tz = TZ_TOKYO\<rparr>
          \<and> pubdate e2 = Some \<lparr>year = 2021, month = 3, day = 1, hour = 0, minute = 0, tz = TZ_TOKYO\<rparr>
          \<and> pubdate e3 = Some \<lparr>year = 2021, month = 2, day = 1, hour = 0, minute = 0, tz = TZ_TOKYO\<rparr>"
    for f1 f2 e1 e2 e3
  proof -
    have s: "sorted_reverse (concat (map entries [f1, f2])) = Inr [e2, e3, e1]"
      using h by (simp add: sorted_reverse_def key_lt_def sort_key_of_def datetime_fields_def)
    have a: "\<forall>f\<in>set [f1, f2]. author f \<noteq> None"
      using h by simp
    show ?thesis
      using finish_feeddata_authors [OF a refl s] by simp
  qed
  from general example show ?thesis by blast
qed

text \<open>
  The claim's own example, with authors \<open>a\<close> and \<open>b\<close>: the hypotheses hold and the merged
  feed is the one expected.
\<close>

theorem finish_feeddata_sorted_witness:
  "2 \<le> length
     [\<lparr>feed_title = Some (ustr ''A''), feed_url = Some (ustr ''u''), author = Some (ustr ''a''),
       description = None,
       entries =
        [\<lparr>url = None, title = Some (ustr ''p''), summary = None,
          pubdate = Some \<lparr>year = 2021, month = 1, day = 1, hour = 0, minute = 0, tz = TZ_TOKYO\<rparr>,
          thumbnail = None\<rparr>,
         \<lparr>url = None, title = Some (ustr ''q''), summary = None,
          pubdate = Some \<lparr>year = 2021, month = 3, day = 1, hour = 0, minute = 0, tz = TZ_TOKYO\<rparr>,
          thumbnail = None\<rparr>]\<rparr>,
      \<lparr>feed_title = Some (ustr ''B''), feed_url = Some (ustr ''v''), author = Some (ustr ''b''),
       description = None,
       entries =
        [\<lparr>url = None, title = Some (ustr ''r''), summary = None,
          pubdate = Some \<lparr>year = 2021, month = 2, day = 1, hour = 0, minute = 0, tz = TZ_TOKYO\<rparr>,
          thumbnail = None\<rparr>]\<rparr>]
   \<and> (\<exists>data. finish_feeddata
     [\<lparr>feed_title = Some (ustr ''A''), feed_url = Some (ustr ''u''), author = Some (ustr ''a''),
       description = None,
       entries =
        [\<lparr>url = None, title = Some (ustr ''p''), summary = None,
          pubdate = Some \<lparr>year = 2021, month = 1, day = 1, hour = 0, minute = 0, tz = TZ_TOKYO\<rparr>,
          thumbnail = None\<rparr>,
         \<lparr>url = None, title = Some (ustr ''q''), summary = None,
          pubdate = Some \<lparr>year = 2021, month = 3, day = 1, hour = 0, minute = 0, tz = TZ_TOKYO\<rparr>,
          thumbnail = None\<rparr>]\<rparr>,
      \<lparr>feed_title = Some (ustr ''B''), feed_url = Some (ustr ''v''), author = Some (ustr ''b''),
       description = None,
       entries =
        [\<lparr>url = None, title = Some (ustr ''r''), summary = None,
          pubdate = Some \<lparr>year = 2021, month = 2, day = 1, hour = 0, minute = 0, tz = TZ_TOKYO\<rparr>,
          thumbnail = None\<rparr>]\<rparr>] = Inr data
     \<and> author data = Some (ustr ''a, b'')
     \<and> feed_url data = Some (ustr ''u'')
     \<and> map title (entries data) = [Some (ustr ''q''), Some (ustr ''r''), Some (ustr ''p'')])"
proof -
  let ?e1 = "\<lparr>url = None, title = Some (ustr ''p''), summary = None,
          pubdate = Some \<lparr>year = 2021, month = 1, day = 1, hour = 0, minute = 0, tz = TZ_TOKYO\<rparr>,
          thumbnail = None\<rparr>"
  let ?e2 = "\<lparr>url = None, title = Some (ustr ''q''), summary = None,
          pubdate = Some \<lparr>year = 2021, month = 3, day = 1, hour = 0, minute = 0, tz = TZ_TOKYO\<rparr>,
          thumbnail = None\<rparr>"
  let ?e3 = "\<lparr>url = None, title = Some (ustr ''r''), summary = None,
          pubdate = Some \<lparr>year = 2021, month = 2, day = 1, hour = 0, minute = 0, tz = TZ_TOKYO\<rparr>,
          thumbnail = None\<rparr>"
  let ?f1 = "\<lparr>feed_title = Some (ustr ''A''), feed_url = Some (ustr ''u''),
       author = Some (ustr ''a''), description = None, entries = [?e1, ?e2]\<rparr>"
  let ?f2 = "\<lparr>feed_title = Some (ustr ''B''), feed_url = Some (ustr ''v''),
       author = Some (ustr ''b''), description = None, entries = [?e3]\<rparr>"
  have h1: "2 \<le> length [?f1, ?f2]" by simp
  have h2: "\<forall>f\<in>set [?f1, ?f2]. author f \<noteq> None" by simp
  have h3: "\<forall>f\<in>set [?f1, ?f2]. \<forall>e\<in>set (entries f). pubdate e \<noteq> None \<and> title e \<noteq> None"
    by simp
  note main = finish_feeddata_sorted [OF h1 h2 h3]
  from main obtain data where
    d: "finish_feeddata [?f1, ?f2] = Inr data"
       "author data = Some (intercalate (ustr '', '') (map (\<lambda>f. the (author f)) [?f1, ?f2]))"
       "feed_url data = feed_url (hd [?f1, ?f2])"
    by blast
  note example = main [THEN conjunct2, THEN spec, of ?f1, THEN spec, of ?f2,
      THEN spec, of ?e1, THEN spec, of ?e2, THEN spec, of ?e3]
  from example
  have "\<exists>data'. finish_feeddata [?f1, ?f2] = Inr data' \<and> entries data' = [?e2, ?e3, ?e1]"
    by simp
  with d(1) have e: "entries data = [?e2, ?e3, ?e1]" by auto
  have a: "author data = Some (ustr ''a, b'')"
    using d(2) by (simp add: ustr_def)
  have u: "feed_url data = Some (ustr ''u'')"
    using d(3) by simp
  from h1 d(1) a u e show ?thesis by simp
qed

lemma key_lt_mixed:
  "undated a \<noteq> undated b \<Longrightarrow> key_lt (sort_key_of a) (sort_key_of b) = Inl TypeError"
  by (cases "pubdate a"; cases "pubdate b") (simp_all add: key_lt_def sort_key_of_def undated_def)

lemma title_lt_error: "title_lt t1 t2 = Inl e \<Longrightarrow> e = TypeError"
  by (cases t1; cases t2) (simp_all add: title_lt_def)

lemma key_lt_error: "key_lt k1 k2 = Inl e \<Longrightarrow> e = TypeError"
  by (cases "fst k1"; cases "fst k2")
    (auto simp: key_lt_def split: if_splits dest: title_lt_error)

lemma insert_sorted_set:
  "insert_sorted lt x ys = Inr r \<Longrightarrow> set r = insert x (set ys)"
proof (induction ys arbitrary: r)
  case Nil
  then show ?case by auto
next
  case (Cons y ys)
  show ?case
  proof (cases "lt x y")
    case (Inl e)
    with Cons.prems show ?thesis by simp
  next
    case (Inr b)
    show ?thesis
    proof (cases b)
      case True
      with Inr Cons.prems show ?thesis by auto
    next
      case False
      with Inr Cons.prems obtain zs where
        zs: "insert_sorted lt x ys = Inr zs" "r = y # zs"
        by (auto split: sum.splits)
      from Cons.IH [OF zs(1)] zs(2) show ?thesis by auto
    qed
  qed
qed

lemma insert_sorted_head:
  "insert_sorted lt x (y # ys) = Inr r \<Longrightarrow> \<exists>b. lt x y = Inr b"
  by (cases "lt x y") simp_all

lemma insert_sorted_error:
  "insert_sorted lt x ys = Inl e \<Longrightarrow> \<exists>a b. lt a b = Inl e"
proof (induction ys)
  case Nil
  then show ?case by simp
next
  case (Cons y ys)
  show ?case
  proof (cases "lt x y")
    case (Inl e')
    with Cons.prems have "e' = e" by simp
    with Inl show ?thesis by blast
  next
    case (Inr b)
    with Cons.prems have "insert_sorted lt x ys = Inl e"
      by (cases b) (simp_all split: sum.splits)
    then show ?thesis by (rule Cons.IH)
  qed
qed

lemma sort_into_error:
  "sort_into lt acc xs = Inl e \<Longrightarrow> \<exists>a b. lt a b = Inl e"
proof (induction xs arbitrary: acc)
  case Nil
  then show ?case by simp
next
  case (Cons x xs)
  show ?case
  proof (cases "insert_sorted lt x acc")
    case (Inl e')
    with Cons.prems have "e' = e" by simp
    with Inl show ?thesis using insert_sorted_error by fast
  next
    case (Inr acc')
    with Cons.prems have "sort_into lt acc' xs = Inl e" by simp
    then show ?thesis by (rule Cons.IH)
  qed
qed

lemma sort_into_same_kind:
  assumes "sort_into (\<lambda>a b. key_lt (sort_key_of a) (sort_key_of b)) acc xs = Inr r"
    and "acc \<noteq> []" and "\<forall>a\<in>set acc. undated a = c"
  shows "\<forall>x\<in>set xs. undated x = c"
  using assms
proof (induction xs arbitrary: acc)
  case Nil
  show ?case by simp
next
  case (Cons x xs)
  let ?lt = "\<lambda>a b. key_lt (sort_key_of a) (sort_key_of b)"
  obtain acc' where
    ins: "insert_sorted ?lt x acc = Inr acc'" and rest: "sort_into ?lt acc' xs = Inr r"
  proof (cases "insert_sorted ?lt x acc")
    case (Inl e)
    with Cons.prems(1) show ?thesis by simp
  next
    case (Inr acc')
    with Cons.prems(1) have "sort_into ?lt acc' xs = Inr r" by simp
    with Inr that show ?thesis by blast
  qed
  have set_acc': "set acc' = insert x (set acc)"
    using ins by (rule insert_sorted_set)
  from Cons.prems(2) obtain y ys where acc: "acc = y # ys"
    by (cases acc) auto
  from ins acc have "insert_sorted ?lt x (y # ys) = Inr acc'" by simp
  from insert_sorted_head [OF this] obtain b where b: "?lt x y = Inr b" ..
  have "undated x = undated y"
  proof (rule ccontr)
    assume "undated x \<noteq> undated y"
    then have "?lt x y = Inl TypeError" by (rule key_lt_mixed)
    with b show False by simp
  qed
  moreover have "undated y = c"
    using Cons.prems(3) acc by simp
  ultimately have x: "undated x = c" by simp
  have "acc' \<noteq> []"
    using set_acc' by auto
  moreover have "\<forall>a\<in>set acc'. undated a = c"
    using x Cons.prems(3) by (simp add: set_acc')
  ultimately have "\<forall>x\<in>set xs. undated x = c"
    using Cons.IH [OF rest] by blast
  with x show ?case by simp
qed

lemma sorted_reverse_mixed:
  assumes "a \<in> set es" and "b \<in> set es" and "undated a" and "\<not> undated b"
  shows "sorted_reverse es = Inl TypeError"
proof (cases "sort_into (\<lambda>a b. key_lt (sort_key_of a) (sort_key_of b)) [] (rev es)")
  case (Inl e)
  from sort_into_error [OF Inl] obtain x y where
    "key_lt (sort_key_of x) (sort_key_of y) = Inl e" by blast
  then have "e = TypeError"
    by (rule key_lt_error)
  with Inl show ?thesis by (simp add: sorted_reverse_def)
next
  case (Inr r)
  from assms(1) obtain y ys where ys: "rev es = y # ys"
    by (cases "rev es") auto
  with Inr have "sort_into (\<lambda>a b. key_lt (sort_key_of a) (sort_key_of b)) [y] ys = Inr r"
    by simp
  from sort_into_same_kind [OF this, of "undated y"]
  have "\<forall>x\<in>set ys. undated x = undated y" by simp
  then have "\<forall>x\<in>set (rev es). undated x = undated y"
    by (simp add: ys)
  with assms have False by auto
  then show ?thesis ..
qed


text \<open>
  Whenever the feeds to merge all have an author and their entries include a dated and
  an undated one, wherever they stand, building the merged FeedData raises
  \<^verbatim>\<open>TypeError\<close>.
\<close>

lemma finish_feeddata_mixed:
  assumes "feeds \<noteq> []" and "\<forall>f\<in>set feeds. author f \<noteq> None"
    and "a \<in> set (concat (map entries feeds))" and "b \<in> set (concat (map entries feeds))"
    and "undated a" and "\<not> undated b"
  shows "finish_feeddata feeds = Inl TypeError"
proof -
  from assms(1) obtain first rest where feeds: "feeds = first # rest"
    by (cases feeds) auto
  have "sorted_reverse (concat (map entries feeds)) = Inl TypeError"
    using assms(3-6) by (rule sorted_reverse_mixed)
  then show ?thesis
    using feeds those_map_author [OF assms(2)]
    by (simp add: finish_feeddata_def str_join_def ebind_def)
qed

text \<open>
  C1 (failing input). Two feeds, the first with one dated entry, the second with one
  undated entry: building the merged FeedData raises \<^verbatim>\<open>TypeError\<close> (the sort compares
  \<^verbatim>\<open>None\<close> with a \<^verbatim>\<open>datetime\<close>), and the same with the feeds in the other order; no
  merged entry sequence is returned.
\<close>

theorem finish_feeddata_undated_raises:
  "finish_feeddata
     [\<lparr>feed_title = Some (ustr ''A''), feed_url = Some (ustr ''u''), author = Some (ustr ''a''),
       description = None,
       entries =
        [\<lparr>url = None, title = Some (ustr ''p''), summary = None,
          pubdate = Some \<lparr>year = 2021, month = 1, day = 1, hour = 0, minute = 0, tz = TZ_TOKYO\<rparr>,
          thumbnail = None\<rparr>]\<rparr>,
      \<lparr>feed_title = Some (ustr ''B''), feed_url = Some (ustr ''v''), author = Some (ustr ''b''),
       description = None,
       entries =
        [\<lparr>url = None, title = Some (ustr ''r''), summary = None, pubdate = None,
          thumbnail = None\<rparr>]\<rparr>] = Inl TypeError
   \<and> finish_feeddata
     [\<lparr>feed_title = Some (ustr ''B''), feed_url = Some (ustr ''v''), author = Some (ustr ''b''),
       description = None,
       entries =
        [\<lparr>url = None, title = Some (ustr ''r''), summary = None, pubdate = None,
          thumbnail = None\<rparr>]\<rparr>,
      \<lparr>feed_title = Some (ustr ''A''), feed_url = Some (ustr ''u''), author = Some (ustr ''a''),
       description = None,
       entries =
        [\<lparr>url = None, title = Some (ustr ''p''), summary = None,
          pubdate = Some \<lparr>year = 2021, month = 1, day = 1, hour = 0, minute = 0, tz = TZ_TOKYO\<rparr>,
          thumbnail = None\<rparr>]\<rparr>] = Inl TypeError"
  by (simp add: finish_feeddata_def str_join_def ebind_def sorted_reverse_def key_lt_def
      sort_key_of_def)

section \<open>Date resolver: properties\<close>

lemma search_ex1:
  "re_search pubdate_regexp (ustr ''9/2(Wed) 8:32'')
   = Some [(5, ustr ''32''), (4, ustr ''8''), (3, ustr ''2''), (2, ustr ''9'')]"
  by code_simp

lemma search_ex2:
  "re_search pubdate_regexp (ustr ''2019/12/3(Tue) 22:26'')
   = Some [(5, ustr ''26''), (4, ustr ''22''), (3, ustr ''3''), (2, ustr ''12''), (1, ustr ''2019'')]"
  by code_simp

lemma search_ex3: "re_search pubdate_regexp (ustr ''no date here'') = None"
  by code_simp

lemma ustr_eq_Nil [simp]: "(ustr s = []) = (s = [])"
  by (simp add: ustr_def)

lemma py_int_digits [simp]:
  "py_int (Some (ustr ''32'')) = Inr 32" "py_int (Some (ustr ''8'')) = Inr 8"
  "py_int (Some (ustr ''2'')) = Inr 2" "py_int (Some (ustr ''9'')) = Inr 9"
  "py_int (Some (ustr ''26'')) = Inr 26" "py_int (Some (ustr ''22'')) = Inr 22"
  "py_int (Some (ustr ''3'')) = Inr 3" "py_int (Some (ustr ''12'')) = Inr 12"
  "py_int (Some (ustr ''2019'')) = Inr 2019"
  by (simp_all add: py_int_def ustr_def is_digit_def)

lemma resolve_wed_2020: "parse_pubdate (ustr ''9/2(Wed) 8:32'') (Some 2020) now
   = Inr (Some \<lparr>year = 2020, month = 9, day = 2, hour = 8, minute = 32, tz = TZ_TOKYO\<rparr>)"
  by (simp add: parse_pubdate_def search_ex1 group_def safe_int_def ebind_def datetime_new_def
      days_in_month_def)

lemma resolve_wed_now: "1 \<le> now \<Longrightarrow> now \<le> 9999 \<Longrightarrow> parse_pubdate (ustr ''9/2(Wed) 8:32'') None now
   = Inr (Some \<lparr>year = now, month = 9, day = 2, hour = 8, minute = 32, tz = TZ_TOKYO\<rparr>)"
  by (simp add: parse_pubdate_def search_ex1 group_def safe_int_def ebind_def datetime_new_def
      days_in_month_def)

lemma resolve_tue_2019: "parse_pubdate (ustr ''2019/12/3(Tue) 22:26'') ty now
   = Inr (Some \<lparr>year = 2019, month = 12, day = 3, hour = 22, minute = 26, tz = TZ_TOKYO\<rparr>)"
  by (simp add: parse_pubdate_def search_ex2 group_def safe_int_def ebind_def datetime_new_def
      days_in_month_def)

lemma resolve_no_date: "parse_pubdate (ustr ''no date here'') ty now = Inr None"
  by (simp add: parse_pubdate_def search_ex3)

lemma default_now: "parse_pubdate s None now = parse_pubdate s (Some now) now'"
  by (cases "re_search pubdate_regexp s") (simp_all add: parse_pubdate_def cong: if_cong)

lemma tz_result: "parse_pubdate s ty now = Inr (Some dt) \<Longrightarrow> tz dt = TZ_TOKYO"
  by (cases "tz dt") simp

lemma year_default:
  assumes "re_search pubdate_regexp s = Some m" and "group m 1 = None"
    and "parse_pubdate s (Some ty) now = Inr (Some dt)"
  shows "year dt = ty"
proof -
  have "safe_int (group m 1) = Inr None"
    using assms(2) by (simp add: safe_int_def)
  with assms(1,3) obtain mo d h mi where
    "datetime_new ty mo d h mi TZ_TOKYO = Inr dt"
    by (auto simp: parse_pubdate_def ebind_def split: sum.splits)
  then show ?thesis
    by (auto simp: datetime_new_def split: if_splits)
qed

lemma run_length_take:
  "(k \<le> run_length c s) = (k \<le> length s \<and> list_all (in_class c) (take k s))"
proof (induction s arbitrary: k)
  case Nil
  then show ?case by (simp add: run_length_def)
next
  case (Cons x s)
  show ?case
  proof (cases k)
    case 0
    then show ?thesis by simp
  next
    case (Suc j)
    with Cons [of j] show ?thesis by (simp add: run_length_def)
  qed
qed

lemma split_prefix:
  "(\<exists>w. s = w @ t \<and> length w = k \<and> list_all P w)
   = (k \<le> length s \<and> list_all P (take k s) \<and> t = drop k s)"
proof
  assume "\<exists>w. s = w @ t \<and> length w = k \<and> list_all P w"
  then obtain w where "s = w @ t" "length w = k" "list_all P w" by blast
  then show "k \<le> length s \<and> list_all P (take k s) \<and> t = drop k s" by auto
next
  assume h: "k \<le> length s \<and> list_all P (take k s) \<and> t = drop k s"
  then have "s = take k s @ t \<and> length (take k s) = k \<and> list_all P (take k s)" by simp
  then show "\<exists>w. s = w @ t \<and> length w = k \<and> list_all P w" by blast
qed

lemma drop_run_iff:
  "(t \<in> (\<lambda>k. drop k s) ` {k. lo \<le> k \<and> k \<le> hi \<and> k \<le> run_length c s})
   = (\<exists>w. s = w @ t \<and> lo \<le> length w \<and> length w \<le> hi \<and> list_all (in_class c) w)"
proof
  assume "t \<in> (\<lambda>k. drop k s) ` {k. lo \<le> k \<and> k \<le> hi \<and> k \<le> run_length c s}"
  then obtain k where k: "t = drop k s" "lo \<le> k" "k \<le> hi" "k \<le> run_length c s" by auto
  then have "k \<le> length s \<and> list_all (in_class c) (take k s) \<and> t = drop k s"
    by (simp add: run_length_take)
  then have "\<exists>w. s = w @ t \<and> length w = k \<and> list_all (in_class c) w"
    by (simp only: split_prefix)
  with k show "\<exists>w. s = w @ t \<and> lo \<le> length w \<and> length w \<le> hi \<and> list_all (in_class c) w"
    by auto
next
  assume "\<exists>w. s = w @ t \<and> lo \<le> length w \<and> length w \<le> hi \<and> list_all (in_class c) w"
  then obtain w where w: "s = w @ t" "lo \<le> length w" "length w \<le> hi" "list_all (in_class c) w"
    by blast
  then have "\<exists>w'. s = w' @ t \<and> length w' = length w \<and> list_all (in_class c) w'" by blast
  then have "length w \<le> length s \<and> list_all (in_class c) (take (length w) s)
      \<and> t = drop (length w) s"
    by (simp only: split_prefix)
  then have "length w \<le> run_length c s" "t = drop (length w) s"
    by (simp_all add: run_length_take)
  with w show "t \<in> (\<lambda>k. drop k s) ` {k. lo \<le> k \<and> k \<le> hi \<and> k \<le> run_length c s}"
    by blast
qed

lemma run_length_le: "run_length c s \<le> length s"
  by (simp add: run_length_def length_takeWhile_le)

lemma snd_map_drop:
  "snd ` set (map (\<lambda>k. (g, drop k s)) ks) = (\<lambda>k. drop k s) ` set ks"
  by (simp add: image_image)

lemma rmatch_rests:
  "snd ` set (rmatch r g s) = {t. \<exists>w\<in>lang r. s = w @ t}"
proof (induction r arbitrary: g s)
  case (Sym c)
  show ?case by (cases s) auto
next
  case (Seq a b)
  have "snd ` set (rmatch (Seq a b) g s)
        = (\<Union>p\<in>set (rmatch a g s). snd ` set (rmatch b (fst p) (snd p)))"
    by (auto simp: case_prod_beta image_UN)
  also have "\<dots> = (\<Union>p\<in>set (rmatch a g s). {t. \<exists>v\<in>lang b. snd p = v @ t})"
    by (simp only: Seq.IH(2))
  also have "\<dots> = (\<Union>s'\<in>snd ` set (rmatch a g s). {t. \<exists>v\<in>lang b. s' = v @ t})"
    by auto
  also have "\<dots> = (\<Union>s'\<in>{t. \<exists>u\<in>lang a. s = u @ t}. {t. \<exists>v\<in>lang b. s' = v @ t})"
    by (simp only: Seq.IH(1))
  also have "\<dots> = {t. \<exists>w\<in>lang (Seq a b). s = w @ t}"
    by fastforce
  finally show ?case .
next
  case (Alt a b)
  then show ?case by (auto simp: image_Un)
next
  case (Opt a)
  then show ?case by (auto simp: image_Un)
next
  case (Rep c m n)
  have "set (rev [m ..< Suc (min n (run_length c s))])
        = {k. m \<le> k \<and> k \<le> n \<and> k \<le> run_length c s}"
    by auto
  then have "snd ` set (rmatch (Rep c m n) g s)
        = (\<lambda>k. drop k s) ` {k. m \<le> k \<and> k \<le> n \<and> k \<le> run_length c s}"
    by (simp only: rmatch.simps snd_map_drop)
  also have "\<dots> = {t. \<exists>w. s = w @ t \<and> m \<le> length w \<and> length w \<le> n
                          \<and> list_all (in_class c) w}"
    by (rule set_eqI) (simp only: drop_run_iff mem_Collect_eq)
  also have "\<dots> = {t. \<exists>w\<in>lang (Rep c m n). s = w @ t}"
    by auto
  finally show ?case .
next
  case (LazyStar c)
  have "set [0 ..< Suc (run_length c s)]
        = {k. 0 \<le> k \<and> k \<le> length s \<and> k \<le> run_length c s}"
    using run_length_le [of c s] by auto
  then have "snd ` set (rmatch (LazyStar c) g s)
        = (\<lambda>k. drop k s) ` {k. 0 \<le> k \<and> k \<le> length s \<and> k \<le> run_length c s}"
    by (simp only: rmatch.simps snd_map_drop)
  also have "\<dots> = {t. \<exists>w. s = w @ t \<and> 0 \<le> length w \<and> length w \<le> length s
                          \<and> list_all (in_class c) w}"
    by (rule set_eqI) (simp only: drop_run_iff mem_Collect_eq)
  also have "\<dots> = {t. \<exists>w\<in>lang (LazyStar c). s = w @ t}"
    by auto
  finally show ?case .
next
  case (Plus c)
  have "set (rev [1 ..< Suc (run_length c s)])
        = {k. 1 \<le> k \<and> k \<le> length s \<and> k \<le> run_length c s}"
    using run_length_le [of c s] by auto
  then have "snd ` set (rmatch (Plus c) g s)
        = (\<lambda>k. drop k s) ` {k. 1 \<le> k \<and> k \<le> length s \<and> k \<le> run_length c s}"
    by (simp only: rmatch.simps snd_map_drop)
  also have "\<dots> = {t. \<exists>w. s = w @ t \<and> 1 \<le> length w \<and> length w \<le> length s
                          \<and> list_all (in_class c) w}"
    by (rule set_eqI) (simp only: drop_run_iff mem_Collect_eq)
  also have "\<dots> = {t. \<exists>w\<in>lang (Plus c). s = w @ t}"
    by (auto simp: Suc_le_eq)
  finally show ?case .
next
  case (Group i a)
  have "snd ` set (rmatch (Group i a) g s) = snd ` set (rmatch a g s)"
    by (auto simp: image_image case_prod_beta)
  with Group show ?case by simp
qed

lemma re_match_None_iff: "(re_match r s = None) = (\<not> (\<exists>w t. w \<in> lang r \<and> s = w @ t))"
proof -
  have "(re_match r s = None) = (rmatch r [] s = [])"
    by (auto simp: re_match_def split: list.splits)
  also have "\<dots> = (snd ` set (rmatch r [] s) = {})"
    by simp
  also have "\<dots> = (\<not> (\<exists>w t. w \<in> lang r \<and> s = w @ t))"
    by (simp only: rmatch_rests) blast
  finally show ?thesis .
qed

lemma re_search_None_iff:
  "(re_search r s = None) = (\<not> (\<exists>pre w post. w \<in> lang r \<and> s = pre @ w @ post))"
proof (induction s)
  case Nil
  show ?case by (simp add: re_match_None_iff)
next
  case (Cons x t)
  have "(re_search r (x # t) = None) = (re_match r (x # t) = None \<and> re_search r t = None)"
    by (simp split: option.splits)
  also have "\<dots> = ((\<not> (\<exists>w post. w \<in> lang r \<and> x # t = w @ post))
                   \<and> (\<not> (\<exists>pre w post. w \<in> lang r \<and> t = pre @ w @ post)))"
    by (simp only: re_match_None_iff Cons.IH)
  also have "\<dots> = (\<not> (\<exists>pre w post. w \<in> lang r \<and> x # t = pre @ w @ post))"
  proof -
    have "(\<exists>pre w post. w \<in> lang r \<and> x # t = pre @ w @ post)
          = ((\<exists>w post. w \<in> lang r \<and> x # t = w @ post)
             \<or> (\<exists>pre w post. w \<in> lang r \<and> t = pre @ w @ post))"
    proof
      assume "\<exists>pre w post. w \<in> lang r \<and> x # t = pre @ w @ post"
      then obtain pre w post where h: "w \<in> lang r" "x # t = pre @ w @ post" by blast
      show "(\<exists>w post. w \<in> lang r \<and> x # t = w @ post)
             \<or> (\<exists>pre w post. w \<in> lang r \<and> t = pre @ w @ post)"
      proof (cases pre)
        case Nil
        with h show ?thesis by auto
      next
        case (Cons y pre')
        with h have "t = pre' @ w @ post" by simp
        with h(1) show ?thesis by blast
      qed
    next
      assume "(\<exists>w post. w \<in> lang r \<and> x # t = w @ post)
             \<or> (\<exists>pre w post. w \<in> lang r \<and> t = pre @ w @ post)"
      then show "\<exists>pre w post. w \<in> lang r \<and> x # t = pre @ w @ post"
      proof
        assume "\<exists>w post. w \<in> lang r \<and> x # t = w @ post"
        then obtain w post where "w \<in> lang r" "x # t = [] @ w @ post" by auto
        then show ?thesis by blast
      next
        assume "\<exists>pre w post. w \<in> lang r \<and> t = pre @ w @ post"
        then obtain pre w post where "w \<in> lang r" "x # t = (x # pre) @ w @ post" by auto
        then show ?thesis by blast
      qed
    qed
    then show ?thesis by simp
  qed
  finally show ?case .
qed

lemma in_class_digit: "in_class digit = is_digit"
  by (rule ext) (simp add: digit_def is_digit_def ord_def)

lemma lang_digits:
  "lang (Rep digit lo hi) = {w. lo \<le> length w \<and> length w \<le> hi \<and> list_all is_digit w}"
  by (simp add: in_class_digit)

lemma lang_year:
  "lang (Opt (Seq (Group 1 (Rep digit 4 4)) (Sym (Lit (ord CHR ''/''))))) = {y. year_part y}"
proof -
  have "lang (Seq (Group 1 (Rep digit 4 4)) (Sym (Lit (ord CHR ''/''))))
        = {ds @ ustr ''/'' | ds. length ds = 4 \<and> list_all is_digit ds}"
    by (auto simp: in_class_digit ustr_def ord_def)
  then show ?thesis
    by (auto simp: year_part_def)
qed

lemma lang_month:
  "lang (Group 2 (Alt (Sym (Range (ord CHR ''1'') (ord CHR ''9'')))
                       (Seq (Sym (Lit (ord CHR ''1''))) (Sym (AnyOf (ustr ''012''))))))
   = {m. month_part m}"
  by (auto simp: month_part_def)

lemma lang_day:
  "lang (Group 3 (Seq (Opt (Sym (AnyOf (ustr ''123'')))) (Sym digit))) = {d. day_part d}"
proof (rule set_eqI)
  fix d
  have "(d \<in> lang (Group 3 (Seq (Opt (Sym (AnyOf (ustr ''123'')))) (Sym digit))))
        = (\<exists>u v. d = u @ v \<and> (u = [] \<or> (\<exists>a. u = [a] \<and> a \<in> set (ustr ''123'')))
                 \<and> (\<exists>c. v = [c] \<and> is_digit c))"
    by (simp add: in_class_digit)
  also have "\<dots> = (\<exists>a c. is_digit c \<and> (d = [c] \<or> (d = [a, c] \<and> a \<in> set (ustr ''123''))))"
  proof
    assume "\<exists>u v. d = u @ v \<and> (u = [] \<or> (\<exists>a. u = [a] \<and> a \<in> set (ustr ''123'')))
                 \<and> (\<exists>c. v = [c] \<and> is_digit c)"
    then obtain u c where h: "d = u @ [c]" "is_digit c"
        "u = [] \<or> (\<exists>a. u = [a] \<and> a \<in> set (ustr ''123''))"
      by blast
    from h(3) show "\<exists>a c. is_digit c \<and> (d = [c] \<or> (d = [a, c] \<and> a \<in> set (ustr ''123'')))"
    proof
      assume "u = []"
      with h show ?thesis by auto
    next
      assume "\<exists>a. u = [a] \<and> a \<in> set (ustr ''123'')"
      then obtain a where "u = [a]" "a \<in> set (ustr ''123'')" by blast
      with h have "is_digit c \<and> (d = [c] \<or> (d = [a, c] \<and> a \<in> set (ustr ''123'')))" by simp
      then show ?thesis by blast
    qed
  next
    assume "\<exists>a c. is_digit c \<and> (d = [c] \<or> (d = [a, c] \<and> a \<in> set (ustr ''123'')))"
    then obtain a c where h: "is_digit c" "d = [c] \<or> (d = [a, c] \<and> a \<in> set (ustr ''123''))"
      by blast
    from h(2) show "\<exists>u v. d = u @ v \<and> (u = [] \<or> (\<exists>a. u = [a] \<and> a \<in> set (ustr ''123'')))
                 \<and> (\<exists>c. v = [c] \<and> is_digit c)"
    proof
      assume "d = [c]"
      with h(1) have "d = [] @ [c] \<and> ([] = [] \<or> (\<exists>a. [] = [a] \<and> a \<in> set (ustr ''123'')))
                 \<and> (\<exists>c'. [c] = [c'] \<and> is_digit c')" by simp
      then show ?thesis by blast
    next
      assume "d = [a, c] \<and> a \<in> set (ustr ''123'')"
      with h(1) have "d = [a] @ [c] \<and> ([a] = [] \<or> (\<exists>a'. [a] = [a'] \<and> a' \<in> set (ustr ''123'')))
                 \<and> (\<exists>c'. [c] = [c'] \<and> is_digit c')" by simp
      then show ?thesis by blast
    qed
  qed
  also have "\<dots> = day_part d"
    by (simp add: day_part_def)
  finally show "(d \<in> lang (Group 3 (Seq (Opt (Sym (AnyOf (ustr ''123'')))) (Sym digit))))
        = (d \<in> {d. day_part d})"
    by simp
qed

lemma lang_date: "lang date_regexp = {D. date_shape D}"
proof (rule set_eqI)
  fix D
  have sl: "lang (Sym (Lit (ord CHR ''/''))) = {ustr ''/''}"
    by (auto simp: ustr_def ord_def)
  have "(D \<in> lang date_regexp)
        = (\<exists>y r1. D = y @ r1 \<and> year_part y
             \<and> (\<exists>m r2. r1 = m @ r2 \<and> month_part m
                \<and> (\<exists>c d. r2 = c @ d \<and> c = ustr ''/'' \<and> day_part d)))"
    unfolding date_regexp_def lang.simps(2) [of "Opt _"] lang.simps(2) [of "Group 2 _"]
      lang.simps(2) [of "Sym (Lit _)"] lang_year lang_month lang_day sl
    by (simp only: mem_Collect_eq singleton_iff)
  also have "\<dots> = (\<exists>y m d. D = y @ m @ ustr ''/'' @ d \<and> year_part y \<and> month_part m
                      \<and> day_part d)"
    by blast
  finally show "(D \<in> lang date_regexp) = (D \<in> {D. date_shape D})"
    by (simp add: date_shape_def)
qed

lemma lang_time: "lang time_regexp = {T. time_shape T}"
proof -
  have "lang time_regexp
        = {h @ c @ mi | h c mi. digits12 h \<and> c = ustr '':'' \<and> digits12 mi}"
    by (auto simp: time_regexp_def in_class_digit digits12_def ustr_def ord_def)
  then show ?thesis
    by (auto simp: time_shape_def)
qed

lemma lang_pubdate:
  "lang pubdate_regexp
   = {D @ mid @ T | D mid T. date_shape D \<and> 10 \<notin> set mid \<and> time_shape T}"
proof -
  have dots: "lang (LazyStar Dot) = {w. 10 \<notin> set w}"
    by (auto simp: list_all_iff)
  show ?thesis
    unfolding pubdate_regexp_def lang.simps(2) lang_date lang_time dots
    by blast
qed

lemma re_search_pubdate_None:
  "(re_search pubdate_regexp s = None) = (\<not> has_date_time s)"
proof -
  have "(\<exists>pre w post. w \<in> lang pubdate_regexp \<and> s = pre @ w @ post) = has_date_time s"
  proof
    assume "\<exists>pre w post. w \<in> lang pubdate_regexp \<and> s = pre @ w @ post"
    then obtain pre w post where w: "w \<in> lang pubdate_regexp" "s = pre @ w @ post" by blast
    from w(1) obtain D mid T where
      "w = D @ mid @ T" "date_shape D" "10 \<notin> set mid" "time_shape T"
      unfolding lang_pubdate by blast
    with w(2) have "s = pre @ D @ mid @ T @ post \<and> date_shape D \<and> 10 \<notin> set mid \<and> time_shape T"
      by simp
    then show "has_date_time s"
      unfolding has_date_time_def by blast
  next
    assume "has_date_time s"
    then obtain pre D mid T post where
      h: "s = pre @ D @ mid @ T @ post" "date_shape D" "10 \<notin> set mid" "time_shape T"
      unfolding has_date_time_def by blast
    then have "D @ mid @ T \<in> lang pubdate_regexp"
      unfolding lang_pubdate by blast
    moreover have "s = pre @ (D @ mid @ T) @ post"
      using h(1) by simp
    ultimately show "\<exists>pre w post. w \<in> lang pubdate_regexp \<and> s = pre @ w @ post"
      by blast
  qed
  then show ?thesis
    by (simp only: re_search_None_iff)
qed

lemma ebind_not_absent:
  "(\<And>x. f x \<noteq> Inr None) \<Longrightarrow> ebind m f \<noteq> Inr None"
  by (cases m) (simp_all add: ebind_def)

lemma parse_pubdate_found:
  "re_search pubdate_regexp s = Some m \<Longrightarrow> parse_pubdate s ty now \<noteq> Inr None"
  unfolding parse_pubdate_def
  by (simp only: option.case) (intro ebind_not_absent, simp)

text \<open>
  C5 (as amended). The resolver yields absence exactly for the texts that hold no date
  fragment followed, with no newline between, by a time fragment, the fragments being
  those of the two patterns: an optional four-digit year and slash, a month 1-9 or 10-12,
  a slash, a day of one digit or of two digits beginning with 1, 2 or 3; then one or two
  digits, a colon, and one or two digits.
\<close>

theorem parse_pubdate_absent_iff:
  "(parse_pubdate s this_year now_year = Inr None) = (\<not> has_date_time s)"
proof (cases "re_search pubdate_regexp s")
  case None
  then have "parse_pubdate s this_year now_year = Inr None"
    by (simp add: parse_pubdate_def)
  moreover from None have "\<not> has_date_time s"
    by (simp only: re_search_pubdate_None [symmetric])
  ultimately show ?thesis by simp
next
  case (Some m)
  then have "parse_pubdate s this_year now_year \<noteq> Inr None"
    by (rule parse_pubdate_found)
  moreover from Some have "has_date_time s"
    using re_search_pubdate_None [of s] by simp
  ultimately show ?thesis by simp
qed

lemma search_minute: "re_search pubdate_regexp (ustr ''9/2 8:3'')
   = Some [(5, ustr ''3''), (4, ustr ''8''), (3, ustr ''2''), (2, ustr ''9'')]"
  by code_simp

lemma search_day0: "re_search pubdate_regexp (ustr ''9/0 8:32'')
   = Some [(5, ustr ''32''), (4, ustr ''8''), (3, ustr ''0''), (2, ustr ''9'')]"
  by code_simp

lemma search_day32: "re_search pubdate_regexp (ustr ''9/32 8:32'')
   = Some [(5, ustr ''32''), (4, ustr ''8''), (3, ustr ''32''), (2, ustr ''9'')]"
  by code_simp

lemma py_int_0: "py_int (Some (ustr ''0'')) = Inr 0"
  by (simp add: py_int_def ustr_def is_digit_def)

text \<open>
  C5 (counterexample). A one-digit minute is read as a minute, and day 0 or day 32 makes
  the resolver raise \<^verbatim>\<open>ValueError\<close>: in none of the three cases is the result absence.
\<close>

theorem parse_pubdate_shapes_counterexample:
  "parse_pubdate (ustr ''9/2 8:3'') (Some 2020) 2020
     = Inr (Some \<lparr>year = 2020, month = 9, day = 2, hour = 8, minute = 3, tz = TZ_TOKYO\<rparr>)
   \<and> parse_pubdate (ustr ''9/0 8:32'') (Some 2020) 2020 = Inl ValueError
   \<and> parse_pubdate (ustr ''9/32 8:32'') (Some 2020) 2020 = Inl ValueError"
  by (simp add: parse_pubdate_def search_minute search_day0 search_day32 py_int_0 group_def
      safe_int_def ebind_def datetime_new_def days_in_month_def)

theorem parse_pubdate_absent_iff_witness:
  "has_date_time (ustr ''9/2 8:3'') \<and> \<not> has_date_time (ustr ''no date here'')"
proof -
  have "parse_pubdate (ustr ''9/2 8:3'') (Some 2020) 2020 \<noteq> Inr None"
    by (simp add: parse_pubdate_def search_minute group_def
      safe_int_def ebind_def datetime_new_def days_in_month_def)
  then have 1: "has_date_time (ustr ''9/2 8:3'')"
    using parse_pubdate_absent_iff [of "ustr ''9/2 8:3''" "Some 2020" 2020] by simp
  have "parse_pubdate (ustr ''no date here'') None 2020 = Inr None"
    by (rule resolve_no_date)
  then have 2: "\<not> has_date_time (ustr ''no date here'')"
    using parse_pubdate_absent_iff [of "ustr ''no date here''" None 2020] by simp
  from 1 2 show ?thesis by simp
qed

text \<open>
  C4. \<open>parse_pubdate("9/2(Wed) 8:32", 2020)\<close> is 2020-09-02 08:32 and
  \<open>parse_pubdate("2019/12/3(Tue) 22:26")\<close> is 2019-12-03 22:26, whatever the year in which
  they are resolved; \<open>parse_pubdate("no date here")\<close> is \<^verbatim>\<open>None\<close>, not an error; every
  timestamp returned is in the zone whose offset is nine hours. Without a reference year
  the result is that of the current Tokyo year given as the reference year; and when the
  match has no year component, the year of the result is the reference year.
\<close>

theorem parse_pubdate_resolves:
  "(\<forall>now. parse_pubdate (ustr ''9/2(Wed) 8:32'') (Some 2020) now
      = Inr (Some \<lparr>year = 2020, month = 9, day = 2, hour = 8, minute = 32, tz = TZ_TOKYO\<rparr>))
   \<and> (\<forall>ty now. parse_pubdate (ustr ''2019/12/3(Tue) 22:26'') ty now
      = Inr (Some \<lparr>year = 2019, month = 12, day = 3, hour = 22, minute = 26, tz = TZ_TOKYO\<rparr>))
   \<and> (\<forall>ty now. parse_pubdate (ustr ''no date here'') ty now = Inr None)
   \<and> (\<forall>s ty now dt. parse_pubdate s ty now = Inr (Some dt)
        \<longrightarrow> utcoffset_seconds (tz dt) = 9 * 3600)
   \<and> (\<forall>s now now'. parse_pubdate s None now = parse_pubdate s (Some now) now')
   \<and> (\<forall>s m ty now dt.
        re_search pubdate_regexp s = Some m \<and> group m 1 = None
        \<and> parse_pubdate s (Some ty) now = Inr (Some dt) \<longrightarrow> year dt = ty)
   \<and> (\<forall>now. 1 \<le> now \<and> now \<le> 9999 \<longrightarrow>
        parse_pubdate (ustr ''9/2(Wed) 8:32'') None now
        = Inr (Some \<lparr>year = now, month = 9, day = 2, hour = 8, minute = 32, tz = TZ_TOKYO\<rparr>))"
proof -
  have zone: "utcoffset_seconds (tz dt) = 9 * 3600" for dt :: datetime
    by (cases "tz dt") simp
  show ?thesis
    using resolve_wed_2020 resolve_tue_2019 resolve_no_date zone default_now year_default resolve_wed_now by blast
qed

theorem parse_pubdate_resolves_witness:
  "re_search pubdate_regexp (ustr ''9/2(Wed) 8:32'')
     = Some [(5, ustr ''32''), (4, ustr ''8''), (3, ustr ''2''), (2, ustr ''9'')]
   \<and> group [(5, ustr ''32''), (4, ustr ''8''), (3, ustr ''2''), (2, ustr ''9'')] 1 = None
   \<and> (1::int) \<le> 2024 \<and> (2024::int) \<le> 9999
   \<and> parse_pubdate (ustr ''9/2(Wed) 8:32'') None 2024
      = Inr (Some \<lparr>year = 2024, month = 9, day = 2, hour = 8, minute = 32, tz = TZ_TOKYO\<rparr>)
   \<and> year \<lparr>year = 2024, month = 9, day = 2, hour = 8, minute = 32, tz = TZ_TOKYO\<rparr> = 2024
   \<and> utcoffset_seconds
        (tz \<lparr>year = 2024, month = 9, day = 2, hour = 8, minute = 32, tz = TZ_TOKYO\<rparr>) = 9 * 3600"
proof -
  let ?s = "ustr ''9/2(Wed) 8:32''"
  let ?m = "[(5, ustr ''32''), (4, ustr ''8''), (3, ustr ''2''), (2, ustr ''9'')]"
  let ?dt = "\<lparr>year = 2024, month = 9, day = 2, hour = 8, minute = 32, tz = TZ_TOKYO\<rparr>"
  note all = parse_pubdate_resolves
  have now: "parse_pubdate ?s None 2024 = Inr (Some ?dt)"
    using all [THEN conjunct2, THEN conjunct2, THEN conjunct2, THEN conjunct2, THEN conjunct2,
        THEN conjunct2, THEN spec, of 2024]
    by simp
  have same: "parse_pubdate ?s None 2024 = parse_pubdate ?s (Some 2024) 0"
    using all [THEN conjunct2, THEN conjunct2, THEN conjunct2, THEN conjunct2, THEN conjunct1]
    by blast
  have m: "re_search pubdate_regexp ?s = Some ?m"
    by (rule search_ex1)
  have g: "group ?m 1 = None"
    by (simp add: group_def)
  have "year ?dt = 2024"
    using all [THEN conjunct2, THEN conjunct2, THEN conjunct2, THEN conjunct2, THEN conjunct2,
        THEN conjunct1, THEN spec, of ?s, THEN spec, of ?m, THEN spec, of 2024,
        THEN spec, of 0, THEN spec, of ?dt] m g now same
    by simp
  moreover have "utcoffset_seconds (tz ?dt) = 9 * 3600"
    using all [THEN conjunct2, THEN conjunct2, THEN conjunct2, THEN conjunct1,
        THEN spec, of ?s, THEN spec, of None, THEN spec, of 2024, THEN spec, of ?dt] now
    by simp
  ultimately show ?thesis
    using m g now by simp
qed

section \<open>Entry and page extraction: properties\<close>

lemma and_getitem_ok:
  "(\<exists>v. and_getitem x key = Inr v) = (\<forall>el. x = Some el \<longrightarrow> has_attr el key)"
  by (cases x) (auto simp: and_getitem_def getitem_def has_attr_def split: option.splits)

lemma and_getitem_None: "and_getitem None key = Inr None"
  by (simp add: and_getitem_def)

lemma ebind_Inr_iff: "(ebind m f = Inr r) = (\<exists>x. m = Inr x \<and> f x = Inr r)"
  by (cases m) (simp_all add: ebind_def)

lemma ebind_Inl_iff: "(ebind m f = Inl e) = (m = Inl e \<or> (\<exists>x. m = Inr x \<and> f x = Inl e))"
  by (cases m) (simp_all add: ebind_def)

lemma parse_entry_ok_iff:
  "(\<exists>e. parse_entry x now = Inr e) = entry_sound x now"
proof -
  have "(\<exists>e. parse_entry x now = Inr e)
        = ((\<exists>u. extract_entry_link x = Inr u) \<and> (\<exists>th. extract_entry_thumbnail x = Inr th)
           \<and> (\<exists>pd. extract_entry_pubdate x now = Inr pd))"
    by (auto simp: parse_entry_def ebind_Inr_iff)
  also have "\<dots> = entry_sound x now"
    unfolding extract_entry_link_def extract_entry_thumbnail_def and_getitem_ok
      entry_sound_def extract_entry_pubdate_def
    by (cases "select1 x sel_dd_pubdate") simp_all
  finally show ?thesis .
qed

lemma parse_entry_fields:
  assumes "parse_entry x now = Inr e"
  shows "(select1 x sel_a_entryBody = None \<longrightarrow> url e = None)
       \<and> (select1 x sel_dd_thumb_img = None \<longrightarrow> thumbnail e = None)
       \<and> (select1 x sel_dt_ttl = None \<longrightarrow> title e = None)
       \<and> (select1 x sel_dd_summary = None \<longrightarrow> summary e = None)
       \<and> (select1 x sel_dd_pubdate = None \<longrightarrow> pubdate e = None)
       \<and> (\<forall>t. select1 x sel_dt_ttl = Some t \<longrightarrow> title e = Some (concat (strings (snd t))))
       \<and> (\<forall>s. select1 x sel_dd_summary = Some s \<longrightarrow> summary e = Some (concat (strings (snd s))))"
proof -
  from assms obtain u th pd where
    p: "extract_entry_link x = Inr u" "extract_entry_thumbnail x = Inr th"
       "extract_entry_pubdate x now = Inr pd"
       "e = \<lparr>url = u, title = extract_entry_title x, summary = extract_entry_summary x,
             pubdate = pd, thumbnail = th\<rparr>"
    by (auto simp: parse_entry_def ebind_Inr_iff)
  have 1: "select1 x sel_a_entryBody = None \<longrightarrow> u = None"
    using p(1) by (auto simp: extract_entry_link_def and_getitem_None)
  have 2: "select1 x sel_dd_thumb_img = None \<longrightarrow> th = None"
    using p(2) by (auto simp: extract_entry_thumbnail_def and_getitem_None)
  have 3: "select1 x sel_dd_pubdate = None \<longrightarrow> pd = None"
    using p(3) by (auto simp: extract_entry_pubdate_def)
  from 1 2 3 p(4) show ?thesis
    by (simp add: extract_entry_title_def extract_entry_summary_def)
qed

lemma parse_entries_ok:
  assumes "\<forall>x\<in>set xs. \<exists>e. parse_entry x now = Inr e"
  shows "\<exists>es. parse_entries xs now = Inr es \<and> list_all2 (\<lambda>x e. parse_entry x now = Inr e) xs es"
  using assms
proof (induction xs)
  case Nil
  then show ?case by simp
next
  case (Cons x xs)
  then obtain e es where
    "parse_entry x now = Inr e" "parse_entries xs now = Inr es"
    "list_all2 (\<lambda>x e. parse_entry x now = Inr e) xs es"
    by auto
  then have "parse_entries (x # xs) now = Inr (e # es)
      \<and> list_all2 (\<lambda>x e. parse_entry x now = Inr e) (x # xs) (e # es)"
    by (simp add: ebind_def)
  then show ?case by blast
qed

lemma parse_entries_fail:
  assumes "x \<in> set xs" and "parse_entry x now = Inl e"
  shows "\<exists>e'. parse_entries xs now = Inl e'"
  using assms
proof (induction xs)
  case Nil
  then show ?case by simp
next
  case (Cons y ys)
  show ?case
  proof (cases "parse_entry y now")
    case (Inl e')
    then show ?thesis by (simp add: ebind_def)
  next
    case (Inr ey)
    with Cons.prems have "x \<in> set ys" by auto
    from Cons.IH [OF this Cons.prems(2)] obtain e' where "parse_entries ys now = Inl e'" by blast
    with Inr show ?thesis by (simp add: ebind_def)
  qed
qed

lemma ustr_inject [simp]: "(ustr a = ustr b) = (a = b)"
  by (simp add: ustr_def inj_map_eq_map [OF inj_of_char])

lemmas dom_eval = page_of_def tags_below_def find_id_def find_all_def select_def select1_def
  matches_selector_def getitem_def and_getitem_def

lemma search_sep31: "re_search pubdate_regexp (ustr ''9/31(Thu) 8:32'')
   = Some [(5, ustr ''32''), (4, ustr ''8''), (3, ustr ''31''), (2, ustr ''9'')]"
  by code_simp

lemma py_int_31: "py_int (Some (ustr ''31'')) = Inr 31"
  by (simp add: py_int_def ustr_def is_digit_def)

text \<open>
  The outcomes of entry extraction. Without the article-list container the result is the
  empty sequence. With it, extraction returns one Entry per list item, in document order,
  when every item is sound, and raises, returning no entry at all, when some item is not:
  when its anchor lacks \<^verbatim>\<open>href\<close>, its thumbnail image lacks \<^verbatim>\<open>src\<close>, or the resolver
  raises on its date. In an Entry returned, a field whose element is missing is absent,
  and title and summary are the concatenated strings of their elements.
\<close>

theorem extract_entries_outcomes:
  "(find_id soup (ustr ''athr_al'') = None \<longrightarrow> extract_entries soup now = Inr [])
   \<and> (\<forall>lst. find_id soup (ustr ''athr_al'') = Some lst \<longrightarrow>
         ((\<forall>x\<in>set (find_all lst (ustr ''li'') (ustr ''entry'')). entry_sound x now) \<longrightarrow>
            (\<exists>es. extract_entries soup now = Inr es
               \<and> list_all2 (\<lambda>x e. parse_entry x now = Inr e)
                    (find_all lst (ustr ''li'') (ustr ''entry'')) es))
         \<and> ((\<exists>x\<in>set (find_all lst (ustr ''li'') (ustr ''entry'')). \<not> entry_sound x now) \<longrightarrow>
            (\<exists>e. extract_entries soup now = Inl e)))
   \<and> (\<forall>x e. parse_entry x now = Inr e \<longrightarrow>
         (select1 x sel_a_entryBody = None \<longrightarrow> url e = None)
         \<and> (select1 x sel_dd_thumb_img = None \<longrightarrow> thumbnail e = None)
         \<and> (select1 x sel_dt_ttl = None \<longrightarrow> title e = None)
         \<and> (select1 x sel_dd_summary = None \<longrightarrow> summary e = None)
         \<and> (select1 x sel_dd_pubdate = None \<longrightarrow> pubdate e = None)
         \<and> (\<forall>t. select1 x sel_dt_ttl = Some t \<longrightarrow> title e = Some (concat (strings (snd t))))
         \<and> (\<forall>s. select1 x sel_dd_summary = Some s \<longrightarrow>
               summary e = Some (concat (strings (snd s)))))"
proof -
  have absent: "find_id soup (ustr ''athr_al'') = None \<longrightarrow> extract_entries soup now = Inr []"
    by (simp add: extract_entries_def)
  have sound: "\<exists>es. extract_entries soup now = Inr es
          \<and> list_all2 (\<lambda>x e. parse_entry x now = Inr e)
               (find_all lst (ustr ''li'') (ustr ''entry'')) es"
    if lst: "find_id soup (ustr ''athr_al'') = Some lst"
      and all: "\<forall>x\<in>set (find_all lst (ustr ''li'') (ustr ''entry'')). entry_sound x now"
    for lst
  proof -
    from all
    have "\<forall>x\<in>set (find_all lst (ustr ''li'') (ustr ''entry'')). \<exists>e. parse_entry x now = Inr e"
      by (simp add: parse_entry_ok_iff)
    from parse_entries_ok [OF this] lst show ?thesis
      by (simp add: extract_entries_def)
  qed
  have unsound: "\<exists>e. extract_entries soup now = Inl e"
    if lst: "find_id soup (ustr ''athr_al'') = Some lst"
      and ex: "\<exists>x\<in>set (find_all lst (ustr ''li'') (ustr ''entry'')). \<not> entry_sound x now"
    for lst
  proof -
    from ex obtain x where x: "x \<in> set (find_all lst (ustr ''li'') (ustr ''entry''))"
      "\<not> entry_sound x now"
      by blast
    from x(2) have "\<not> (\<exists>e. parse_entry x now = Inr e)"
      by (simp only: parse_entry_ok_iff not_False_eq_True)
    then obtain e where "parse_entry x now = Inl e"
      by (cases "parse_entry x now") auto
    from parse_entries_fail [OF x(1) this] lst show ?thesis
      by (simp add: extract_entries_def)
  qed
  from absent sound unsound parse_entry_fields show ?thesis
    by (intro conjI allI impI) blast+
qed

text \<open>
  C2 (failing inputs). A list item whose anchor has no \<^verbatim>\<open>href\<close> makes the extraction
  raise \<^verbatim>\<open>KeyError\<close>, and one dated the 31st of September makes it raise \<^verbatim>\<open>ValueError\<close>:
  no Entry with an absent field is returned, and no other entry either.
\<close>

theorem extract_entries_raises:
  "extract_entries soup_anchor_without_href 2020 = Inl KeyError
   \<and> extract_entries soup_september_31 2020 = Inl ValueError"
proof -
  have 1: "extract_entries soup_anchor_without_href 2020 = Inl KeyError"
    by (simp add: soup_anchor_without_href_def dom_eval extract_entries_def parse_entry_def
        extract_entry_link_def sel_a_entryBody_def ebind_def)
  have 2: "extract_entries soup_september_31 2020 = Inl ValueError"
    by (simp add: soup_september_31_def dom_eval extract_entries_def parse_entry_def
        extract_entry_link_def extract_entry_thumbnail_def extract_entry_pubdate_def
        sel_a_entryBody_def sel_dd_thumb_img_def sel_dd_pubdate_def ebind_def
        parse_pubdate_def search_sep31 group_def safe_int_def py_int_31
        datetime_new_def days_in_month_def)
  from 1 2 show ?thesis by simp
qed

lemmas ex_page = ex_soup_def ex_html_def ex_head_def ex_body_def ex_list_def ex_item1_def
  ex_item2_def ex_list_elem_def ex_item_elems_def

lemmas entry_eval = parse_entry_def extract_entry_link_def extract_entry_thumbnail_def
  extract_entry_pubdate_def extract_entry_title_def extract_entry_summary_def
  sel_a_entryBody_def sel_dd_thumb_img_def sel_dd_pubdate_def sel_dt_ttl_def
  sel_dd_summary_def ebind_def

lemma ex_find_id: "find_id ex_soup (ustr ''athr_al'') = Some ex_list_elem"
  by (simp add: ex_page dom_eval)

lemma ex_find_all: "find_all ex_list_elem (ustr ''li'') (ustr ''entry'') = ex_item_elems"
  by (simp add: ex_page dom_eval)

lemma ex_sound: "\<forall>x\<in>set ex_item_elems. entry_sound x 2020"
  by (simp add: ex_page dom_eval entry_sound_def has_attr_def entry_eval resolve_wed_now)

lemma ex_entries:
  "extract_entries ex_soup 2020 =
     Inr [\<lparr>url = Some (ustr ''http://e/1''), title = Some (ustr ''T''), summary = None,
           pubdate = Some \<lparr>year = 2020, month = 9, day = 2, hour = 8, minute = 32, tz = TZ_TOKYO\<rparr>,
           thumbnail = None\<rparr>,
          \<lparr>url = None, title = None, summary = None, pubdate = None, thumbnail = None\<rparr>]"
  by (simp add: extract_entries_def ex_find_id ex_find_all)
     (simp add: ex_page dom_eval entry_eval resolve_wed_now)

text \<open>
  The small page: its container is found, its two items are sound, and the entries are
  returned, the second with every field absent.
\<close>

theorem extract_entries_outcomes_example:
  "find_id ex_soup (ustr ''athr_al'') = Some ex_list_elem
   \<and> find_all ex_list_elem (ustr ''li'') (ustr ''entry'') = ex_item_elems
   \<and> extract_entries ex_soup 2020
       = Inr [\<lparr>url = Some (ustr ''http://e/1''), title = Some (ustr ''T''), summary = None,
               pubdate = Some \<lparr>year = 2020, month = 9, day = 2, hour = 8, minute = 32,
                               tz = TZ_TOKYO\<rparr>,
               thumbnail = None\<rparr>,
              \<lparr>url = None, title = None, summary = None, pubdate = None, thumbnail = None\<rparr>]
   \<and> list_all2 (\<lambda>x e. parse_entry x 2020 = Inr e) ex_item_elems
        [\<lparr>url = Some (ustr ''http://e/1''), title = Some (ustr ''T''), summary = None,
               pubdate = Some \<lparr>year = 2020, month = 9, day = 2, hour = 8, minute = 32,
                               tz = TZ_TOKYO\<rparr>,
               thumbnail = None\<rparr>,
         \<lparr>url = None, title = None, summary = None, pubdate = None, thumbnail = None\<rparr>]"
proof -
  have s: "\<forall>x\<in>set (find_all ex_list_elem (ustr ''li'') (ustr ''entry'')). entry_sound x 2020"
    using ex_sound by (simp only: ex_find_all)
  from extract_entries_outcomes [of ex_soup 2020] ex_find_id s
  have "\<exists>es. extract_entries ex_soup 2020 = Inr es
         \<and> list_all2 (\<lambda>x e. parse_entry x 2020 = Inr e)
              (find_all ex_list_elem (ustr ''li'') (ustr ''entry'')) es"
    by blast
  with ex_entries ex_find_id ex_find_all show ?thesis by auto
qed

lemma rmatch_literal:
  "(g', t') \<in> set (rmatch (literal c cs) g t) \<Longrightarrow> g' = g \<and> t = (c # cs) @ t'"
proof (induction cs arbitrary: c t)
  case Nil
  then show ?case by (cases t) (auto split: if_splits)
next
  case (Cons d ds)
  show ?case
  proof (cases t)
    case Nil
    with Cons.prems show ?thesis by simp
  next
    case t: (Cons x xs)
    with Cons.prems have x: "x = c" and rest: "(g', t') \<in> set (rmatch (literal d ds) g xs)"
      by (auto split: if_splits)
    from Cons.IH [OF rest] x t show ?thesis by simp
  qed
qed

lemma lang_literal: "lang (literal c cs) = {c # cs}"
  by (induction cs arbitrary: c) auto

lemma rmatch_author:
  assumes "(g, t) \<in> set (rmatch author_regexp [] s)"
  shows "\<exists>p. g = [(1, p)] \<and> p \<noteq> [] \<and> 10 \<notin> set p \<and> s = p @ article_list_suffix @ t"
proof -
  let ?L = "literal 0x306E [0x8A18, 0x4E8B, 0x4E00, 0x89A7]"
  from assms obtain g1 s1 where
    a: "(g1, s1) \<in> set (rmatch (Group 1 (Plus Dot)) [] s)" and b: "(g, t) \<in> set (rmatch ?L g1 s1)"
    by (auto simp: author_regexp_def)
  from a obtain k where k: "1 \<le> k" "k \<le> run_length Dot s" "s1 = drop k s"
      "g1 = [(1, take (length s - length (drop k s)) s)]"
    by auto
  have kl: "k \<le> length s"
    using k(2) run_length_le [of Dot s] by simp
  then have g1: "g1 = [(1, take k s)]"
    using k(4) by simp
  from k(2) have "list_all (in_class Dot) (take k s)"
    by (simp add: run_length_take)
  then have nl: "10 \<notin> set (take k s)"
    by (auto simp: list_all_iff)
  from rmatch_literal [OF b] have gt: "g = g1" "s1 = article_list_suffix @ t"
    by (simp_all add: article_list_suffix_def)
  have "s = take k s @ drop k s" by simp
  then have "s = take k s @ article_list_suffix @ t"
    using k(3) gt(2) by simp
  moreover have "take k s \<noteq> []"
    using k(1) kl by auto
  ultimately show ?thesis
    using g1 gt(1) nl by blast
qed

lemma re_match_author_Some:
  assumes "re_match author_regexp s = Some g"
  shows "\<exists>p. group g 1 = Some p \<and> author_prefix p s"
proof -
  from assms obtain t where "(g, t) \<in> set (rmatch author_regexp [] s)"
    by (auto simp: re_match_def split: list.splits)
  from rmatch_author [OF this] show ?thesis
    by (auto simp: group_def author_prefix_def)
qed

lemma lang_author: "lang author_regexp = {p @ article_list_suffix | p. p \<noteq> [] \<and> 10 \<notin> set p}"
  by (auto simp: author_regexp_def lang_literal article_list_suffix_def list_all_iff)

lemma re_match_author_None:
  "(re_match author_regexp s = None) = (\<not> (\<exists>p. author_prefix p s))"
proof -
  have "(\<exists>w t. w \<in> lang author_regexp \<and> s = w @ t) = (\<exists>p. author_prefix p s)"
    unfolding lang_author author_prefix_def by auto
  then show ?thesis
    by (simp only: re_match_None_iff)
qed

lemma extract_author_string:
  assumes "select1 soup sel_head_title = Some t" and "string_of (snd t) = Some s"
  shows "\<exists>a. extract_author soup = Inr a
           \<and> ((a = None) = (\<not> (\<exists>p. author_prefix p s)))
           \<and> (\<forall>p. a = Some p \<longrightarrow> author_prefix p s)"
proof (cases "re_match author_regexp s")
  case None
  then have "extract_author soup = Inr None"
    using assms by (simp add: extract_author_def)
  with None show ?thesis
    by (simp add: re_match_author_None)
next
  case (Some g)
  from re_match_author_Some [OF Some] obtain p where
    p: "group g 1 = Some p" "author_prefix p s" by blast
  then have "p \<noteq> []" by (simp add: author_prefix_def)
  with p(1) Some assms have "extract_author soup = Inr (Some p)"
    by (simp add: extract_author_def)
  with p(2) show ?thesis by auto
qed

lemma extract_author_ok_iff:
  "(\<exists>a. extract_author soup = Inr a)
   = (\<forall>t. select1 soup sel_head_title = Some t \<longrightarrow> string_of (snd t) \<noteq> None)"
proof (cases "select1 soup sel_head_title")
  case None
  then show ?thesis by (simp add: extract_author_def)
next
  case (Some t)
  show ?thesis
  proof (cases "string_of (snd t)")
    case None
    with Some show ?thesis by (simp add: extract_author_def)
  next
    case s: (Some s)
    from extract_author_string [OF Some s] Some s show ?thesis by auto
  qed
qed

lemma parse_ok_iff:
  "(\<exists>fd. parse soup now = Inr fd)
   = (page_sound soup \<and> (\<exists>es. extract_entries soup now = Inr es))"
proof -
  have "(\<exists>fd. parse soup now = Inr fd)
        = ((\<exists>a. extract_author soup = Inr a) \<and> (\<exists>d. extract_description soup = Inr d)
           \<and> (\<exists>u. extract_canonical_url soup = Inr u)
           \<and> (\<exists>es. extract_entries soup now = Inr es))"
    by (auto simp: parse_def ebind_Inr_iff)
  also have "\<dots> = (page_sound soup \<and> (\<exists>es. extract_entries soup now = Inr es))"
    unfolding extract_author_ok_iff extract_description_def extract_canonical_url_def
      and_getitem_ok page_sound_def
    by simp
  finally show ?thesis .
qed

lemma parse_fields:
  assumes "parse soup now = Inr fd"
  shows "feed_title fd = extract_title soup \<and> extract_author soup = Inr (author fd)
       \<and> extract_description soup = Inr (description fd)
       \<and> extract_canonical_url soup = Inr (feed_url fd)
       \<and> extract_entries soup now = Inr (entries fd)"
  using assms by (auto simp: parse_def ebind_Inr_iff)

text \<open>
  The outcomes of \<open>parse\<close>. It returns a FeedData exactly when the page is sound (the head
  title, if any, has a string; the meta description, if any, carries \<^verbatim>\<open>content\<close>; the
  canonical link, if any, carries \<^verbatim>\<open>href\<close>) and the entries are extracted. In the
  FeedData each of title, author, description and url is absent when the element it is
  read from is missing, whatever the others are; and when the head title has the string
  \<open>s\<close>, the author is a non-empty prefix of \<open>s\<close>, free of newlines, that is followed in \<open>s\<close>
  by the listing-page suffix, and is absent exactly when \<open>s\<close> has no such prefix.
\<close>

theorem parse_lookups_optional:
  "((\<exists>fd. parse soup now = Inr fd)
      = (page_sound soup \<and> (\<exists>es. extract_entries soup now = Inr es)))
   \<and> (\<forall>fd. parse soup now = Inr fd \<longrightarrow>
         (select1 soup sel_title = None \<longrightarrow> feed_title fd = None)
         \<and> (select1 soup sel_head_title = None \<longrightarrow> author fd = None)
         \<and> (select1 soup sel_meta_description = None \<longrightarrow> description fd = None)
         \<and> (select1 soup sel_link_canonical = None \<longrightarrow> feed_url fd = None)
         \<and> (\<forall>t s. select1 soup sel_head_title = Some t \<and> string_of (snd t) = Some s \<longrightarrow>
               ((author fd = None) = (\<not> (\<exists>p. author_prefix p s)))
               \<and> (\<forall>p. author fd = Some p \<longrightarrow> author_prefix p s)))"
proof -
  have fields: "(select1 soup sel_title = None \<longrightarrow> feed_title fd = None)
         \<and> (select1 soup sel_head_title = None \<longrightarrow> author fd = None)
         \<and> (select1 soup sel_meta_description = None \<longrightarrow> description fd = None)
         \<and> (select1 soup sel_link_canonical = None \<longrightarrow> feed_url fd = None)
         \<and> (\<forall>t s. select1 soup sel_head_title = Some t \<and> string_of (snd t) = Some s \<longrightarrow>
               ((author fd = None) = (\<not> (\<exists>p. author_prefix p s)))
               \<and> (\<forall>p. author fd = Some p \<longrightarrow> author_prefix p s))"
    if p: "parse soup now = Inr fd" for fd
  proof -
    note f = parse_fields [OF p]
    have 1: "select1 soup sel_title = None \<longrightarrow> feed_title fd = None"
      using f by (simp add: extract_title_def)
    have 2: "select1 soup sel_head_title = None \<longrightarrow> author fd = None"
      using f by (auto simp: extract_author_def)
    have 3: "select1 soup sel_meta_description = None \<longrightarrow> description fd = None"
      using f by (auto simp: extract_description_def and_getitem_None)
    have 4: "select1 soup sel_link_canonical = None \<longrightarrow> feed_url fd = None"
      using f by (auto simp: extract_canonical_url_def and_getitem_None)
    have 5: "((author fd = None) = (\<not> (\<exists>p. author_prefix p s)))
               \<and> (\<forall>p. author fd = Some p \<longrightarrow> author_prefix p s)"
      if "select1 soup sel_head_title = Some t \<and> string_of (snd t) = Some s" for t s
    proof -
      from that extract_author_string [of soup t s] obtain a where
        a: "extract_author soup = Inr a" "(a = None) = (\<not> (\<exists>p. author_prefix p s))"
           "\<forall>p. a = Some p \<longrightarrow> author_prefix p s"
        by blast
      with f have "a = author fd" by simp
      with a(2,3) show ?thesis by simp
    qed
    from 1 2 3 4 5 show ?thesis by blast
  qed
  with parse_ok_iff [of soup now] show ?thesis by blast
qed

text \<open>
  C6 (failing input). A page whose title element is empty: the head title has no string,
  \<^verbatim>\<open>re.match\<close> is handed \<^verbatim>\<open>None\<close>, and \<open>parse\<close> raises \<^verbatim>\<open>TypeError\<close> instead of
  returning a FeedData without author.
\<close>

theorem parse_empty_title_raises:
  "parse soup_empty_title 2020 = Inl TypeError"
  by (simp add: soup_empty_title_def dom_eval parse_def extract_author_def sel_head_title_def
      ebind_def)

lemma ex_author: "re_match author_regexp (ustr ''A'' @ article_list_suffix) = Some [(1, ustr ''A'')]"
  by (simp add: re_match_def author_regexp_def run_length_def article_list_suffix_def ustr_def)

text \<open>
  The small page is sound and its entries are extracted: title and author are present,
  description and url absent.
\<close>

theorem parse_lookups_optional_example:
  "parse ex_soup 2020 =
     Inr \<lparr>feed_title = Some (ustr ''A'' @ article_list_suffix), feed_url = None,
          author = Some (ustr ''A''), description = None,
          entries =
            [\<lparr>url = Some (ustr ''http://e/1''), title = Some (ustr ''T''), summary = None,
              pubdate = Some \<lparr>year = 2020, month = 9, day = 2, hour = 8, minute = 32,
                              tz = TZ_TOKYO\<rparr>,
              thumbnail = None\<rparr>,
             \<lparr>url = None, title = None, summary = None, pubdate = None, thumbnail = None\<rparr>]\<rparr>
   \<and> select1 ex_soup sel_meta_description = None
   \<and> select1 ex_soup sel_link_canonical = None"
proof -
  let ?fd = "\<lparr>feed_title = Some (ustr ''A'' @ article_list_suffix), feed_url = None,
          author = Some (ustr ''A''), description = None,
          entries =
            [\<lparr>url = Some (ustr ''http://e/1''), title = Some (ustr ''T''), summary = None,
              pubdate = Some \<lparr>year = 2020, month = 9, day = 2, hour = 8, minute = 32,
                              tz = TZ_TOKYO\<rparr>,
              thumbnail = None\<rparr>,
             \<lparr>url = None, title = None, summary = None, pubdate = None, thumbnail = None\<rparr>]\<rparr>"
  have sel: "select1 ex_soup sel_meta_description = None"
      "select1 ex_soup sel_link_canonical = None"
    by (simp_all add: ex_page dom_eval sel_meta_description_def sel_link_canonical_def)
  have title: "extract_title ex_soup = Some (ustr ''A'' @ article_list_suffix)"
    by (simp add: ex_page dom_eval extract_title_def sel_title_def)
  have auth: "extract_author ex_soup = Inr (Some (ustr ''A''))"
    by (simp add: ex_page dom_eval extract_author_def sel_head_title_def ex_author group_def)
  have direct: "parse ex_soup 2020 = Inr ?fd"
    by (simp add: parse_def ebind_def title auth ex_entries extract_description_def
        extract_canonical_url_def sel and_getitem_None)
  note fields = parse_lookups_optional [of ex_soup 2020, THEN conjunct2, THEN spec, of ?fd,
      THEN mp, OF direct]
  from fields sel have "description ?fd = None \<and> feed_url ?fd = None"
    by (simp only:)
  with direct sel show ?thesis
    by (simp only: simp_thms)
qed

end
